theory Spec2Isabelle
  imports Main "HOL-Library.Word"
begin

unbundle bit_operations_syntax

section \<open>Random access to PBF files (include/osmium/io/pbf\_input\_randomaccess.hpp)\<close>

subsection \<open>Bytes, errors and constants\<close>

type_synonym byte = "8 word"

text \<open>
  C string literals as byte lists (without the terminating zero byte).
\<close>

definition bytes_of :: "string \<Rightarrow> byte list" where
  "bytes_of s = map (\<lambda>c. of_nat (of_char c)) s"

text \<open>
  Every \<open>throw osmium::pbf_error{...}\<close> of the header is one constructor, named after
  its message. \<open>MessageDecodeError\<close> stands for an exception of the external message
  reader, \<open>BlockDecodeError\<close> for one of the external block decoder, and
  \<open>InvalidBlockIndex\<close> for the violated precondition of \<open>get_parsed_block\<close>.
\<close>

datatype pbf_error =
    InvalidSmallBlobHeaderSize
  | UnexpectedEOFInBlobHeaderSize
  | UnexpectedEOFInBlobHeader
  | DatasizeMissingOrZero
  | UnexpectedType
  | InvalidBlockSize
  | FileSizeMismatch
  | UnexpectedEOF
  | MessageDecodeError
  | BlockDecodeError
  | InvalidBlockIndex

definition max_small_blob_header_size :: "32 word" where
  "max_small_blob_header_size = 64"

definition max_block_size :: nat where
  "max_block_size = 20 * 1024 * 1024"

definition check_small_size :: "32 word \<Rightarrow> pbf_error + 32 word" where
  "check_small_size sz =
     (if sz > max_small_blob_header_size then Inl InvalidSmallBlobHeaderSize else Inr sz)"

subsection \<open>The length prefix\<close>

text \<open>
  \<open>static_cast<uint32_t>(d[i])\<close> converts a plain \<open>char\<close>. Whether plain \<open>char\<close> is
  signed is fixed by the platform (signed on x86 and x86-64 with gcc and clang, unsigned
  on ARM Linux), so the conversion takes the platform's choice as a parameter: a signed
  \<open>char\<close> is sign-extended, an unsigned one zero-extended.
\<close>

definition char_to_uint32 :: "bool \<Rightarrow> byte \<Rightarrow> 32 word" where
  "char_to_uint32 char_is_signed c = (if char_is_signed then scast c else ucast c)"

definition get_size_in_network_byte_order :: "bool \<Rightarrow> byte list \<Rightarrow> 32 word" where
  "get_size_in_network_byte_order char_is_signed d =
     (char_to_uint32 char_is_signed (d ! 3)) OR
     (push_bit 8 (char_to_uint32 char_is_signed (d ! 2))) OR
     (push_bit 16 (char_to_uint32 char_is_signed (d ! 1))) OR
     (push_bit 24 (char_to_uint32 char_is_signed (d ! 0)))"

subsection \<open>The file descriptor\<close>

text \<open>
  Modelled from the spec: the raw file I/O primitives (\<open>open_for_reading\<close>,
  \<open>reliable_read\<close>, \<open>file_seek\<close>, \<open>file_size\<close>) are external to the header. A file
  descriptor is the file's bytes and the shared read/seek cursor; a read returns the
  bytes requested or those left before the end of the file and advances the cursor;
  a seek sets the cursor (also beyond the end).
\<close>

record fd =
  fd_content :: "byte list"
  fd_pos :: nat

definition open_for_reading :: "byte list \<Rightarrow> fd" where
  "open_for_reading file = \<lparr>fd_content = file, fd_pos = 0\<rparr>"

definition file_size :: "fd \<Rightarrow> nat" where
  "file_size f = length (fd_content f)"

definition file_seek :: "fd \<Rightarrow> nat \<Rightarrow> fd" where
  "file_seek f offset = f\<lparr>fd_pos := offset\<rparr>"

definition reliable_read :: "fd \<Rightarrow> nat \<Rightarrow> byte list \<times> fd" where
  "reliable_read f n =
     (let bs = take n (drop (fd_pos f) (fd_content f))
      in (bs, f\<lparr>fd_pos := fd_pos f + length bs\<rparr>))"

text \<open>
  \<open>read_exactly\<close>: the loop reads until \<open>to_read\<close> is zero or a read returns nothing.
  The bytes read so far are the accumulator \<open>buffer\<close>.
\<close>

function read_exactly_loop :: "fd \<Rightarrow> byte list \<Rightarrow> nat \<Rightarrow> bool \<times> byte list \<times> fd" where
  "read_exactly_loop f buffer to_read =
     (if to_read > 0 then
        (if length (fst (reliable_read f to_read)) = 0 then (False, buffer, snd (reliable_read f to_read))
         else read_exactly_loop (snd (reliable_read f to_read)) (buffer @ fst (reliable_read f to_read))
                (to_read - length (fst (reliable_read f to_read))))
      else (True, buffer, f))"
  by pat_completeness auto
termination
  by (relation "measure (\<lambda>(f, buffer, to_read). to_read)") auto

declare read_exactly_loop.simps [simp del]

definition read_exactly :: "fd \<Rightarrow> nat \<Rightarrow> bool \<times> byte list \<times> fd" where
  "read_exactly f sz = read_exactly_loop f [] sz"

definition read_blob_header_size_from_file :: "bool \<Rightarrow> fd \<Rightarrow> pbf_error + (32 word \<times> fd)" where
  "read_blob_header_size_from_file char_is_signed f =
     (case read_exactly f 4 of
        (False, _, _) \<Rightarrow> Inl UnexpectedEOFInBlobHeaderSize
      | (True, buffer, f') \<Rightarrow>
          (case check_small_size (get_size_in_network_byte_order char_is_signed buffer) of
             Inl e \<Rightarrow> Inl e
           | Inr sz \<Rightarrow> Inr (sz, f')))"

subsection \<open>The blob header\<close>

text \<open>
  The message reader (protozero's \<open>pbf_message\<close>) is an external library: it is a
  parameter of the model, a function from the header's bytes to the fields that
  \<open>next()\<close> walks through, or \<open>None\<close> when it raises. A field is its tag and its wire
  type with the payload.
\<close>

datatype pbf_field =
    varint_field nat "64 word"
  | fixed64_field nat "64 word"
  | length_delimited_field nat "byte list"
  | fixed32_field nat "32 word"

type_synonym pbf_message = "byte list \<Rightarrow> pbf_field list option"

text \<open>
  Modelled from the spec: the header message carries a string \<open>type\<close> and an integer
  \<open>datasize\<close>; their field numbers are those of the \<open>BlobHeader\<close> message of the file
  format (the enum \<open>FileFormat::BlobHeader\<close> is declared outside this header).
\<close>

definition required_string_type :: nat where
  "required_string_type = 1"

definition required_int32_datasize :: nat where
  "required_int32_datasize = 3"

text \<open>
  \<open>get_int32()\<close> narrows the varint to \<open>int32_t\<close>; the assignment to the \<open>size_t\<close>
  variable sign-extends it to 64 bits.
\<close>

definition get_int32_as_size_t :: "64 word \<Rightarrow> nat" where
  "get_int32_as_size_t v = unat (scast (ucast v :: 32 word) :: 64 word)"

fun blob_header_fields :: "pbf_field list \<Rightarrow> byte list \<Rightarrow> nat \<Rightarrow> byte list \<times> nat" where
  "blob_header_fields [] blob_header_type blob_header_datasize =
     (blob_header_type, blob_header_datasize)"
| "blob_header_fields (length_delimited_field tag v # fs) blob_header_type blob_header_datasize =
     (if tag = required_string_type then blob_header_fields fs v blob_header_datasize
      else blob_header_fields fs blob_header_type blob_header_datasize)"
| "blob_header_fields (varint_field tag v # fs) blob_header_type blob_header_datasize =
     (if tag = required_int32_datasize
      then blob_header_fields fs blob_header_type (get_int32_as_size_t v)
      else blob_header_fields fs blob_header_type blob_header_datasize)"
| "blob_header_fields (fixed64_field tag v # fs) blob_header_type blob_header_datasize =
     blob_header_fields fs blob_header_type blob_header_datasize"
| "blob_header_fields (fixed32_field tag v # fs) blob_header_type blob_header_datasize =
     blob_header_fields fs blob_header_type blob_header_datasize"

text \<open>
  \<open>std::strncmp(s1, s2, n)\<close> of the C library, with \<open>s1\<close> a zero-terminated string
  (given without its terminator) and \<open>s2\<close> a view of exactly \<open>n\<close> bytes: it compares
  at most \<open>n\<close> characters, as unsigned bytes, and stops after a zero byte.
\<close>

fun strncmp :: "byte list \<Rightarrow> byte list \<Rightarrow> int" where
  "strncmp s1 [] = 0"
| "strncmp [] (c # s2) = (if c = 0 then 0 else - uint c)"
| "strncmp (a # s1) (c # s2) =
     (if a \<noteq> c then uint a - uint c else if a = 0 then 0 else strncmp s1 s2)"

definition decode_blob_header :: "pbf_message \<Rightarrow> byte list \<Rightarrow> byte list \<Rightarrow> pbf_error + nat" where
  "decode_blob_header pbf_blob_header data expected_type =
     (case pbf_blob_header data of
        None \<Rightarrow> Inl MessageDecodeError
      | Some fs \<Rightarrow>
          (case blob_header_fields fs [] 0 of
             (blob_header_type, blob_header_datasize) \<Rightarrow>
               if blob_header_datasize = 0 then Inl DatasizeMissingOrZero
               else if strncmp expected_type blob_header_type \<noteq> 0 then Inl UnexpectedType
               else Inr blob_header_datasize))"

subsection \<open>The index table\<close>

datatype item_type =
    item_type_undefined
  | item_type_node
  | item_type_way
  | item_type_relation
  | item_type_area
  | item_type_changeset
  | item_type_tag_list
  | item_type_way_node_list
  | item_type_relation_member_list
  | item_type_relation_member_list_with_full_members
  | item_type_outer_ring
  | item_type_inner_ring
  | item_type_changeset_discussion

type_synonym object_id_type = "64 word"

record pbf_block_start =
  file_offset :: nat
  first_item_id_or_zero :: object_id_type
  datasize :: "32 word"
  first_item_type_or_zero :: item_type

record PbfBlockIndexTable =
  m_block_starts :: "pbf_block_start list"
  m_fd :: fd

definition OSMHeader :: "byte list" where
  "OSMHeader = bytes_of ''OSMHeader''"

definition OSMData :: "byte list" where
  "OSMData = bytes_of ''OSMData''"

text \<open>
  \<open>size_t\<close> offsets are natural numbers: they stay below the file size plus one block,
  far from \<open>2^64\<close>.
\<close>

definition digest_and_skip_block ::
  "bool \<Rightarrow> pbf_message \<Rightarrow> PbfBlockIndexTable \<Rightarrow> nat \<Rightarrow> nat \<Rightarrow> bool
   \<Rightarrow> pbf_error + (nat \<times> PbfBlockIndexTable)" where
  "digest_and_skip_block char_is_signed pbf_blob_header this current_offset file_size' should_index_block =
     (case read_blob_header_size_from_file char_is_signed (m_fd this) of
        Inl e \<Rightarrow> Inl e
      | Inr (blob_header_size, f1) \<Rightarrow>
          (case read_exactly f1 (unat blob_header_size) of
             (False, _, _) \<Rightarrow> Inl UnexpectedEOFInBlobHeader
           | (True, buffer, f2) \<Rightarrow>
               (case decode_blob_header pbf_blob_header buffer
                       (if should_index_block then OSMData else OSMHeader) of
                  Inl e \<Rightarrow> Inl e
                | Inr blob_body_size \<Rightarrow>
                    if blob_body_size > max_block_size then Inl InvalidBlockSize
                    else
                      let offset1 = current_offset + 4 + unat blob_header_size;
                          starts =
                            (if should_index_block
                             then m_block_starts this @
                                    [\<lparr>file_offset = offset1,
                                      first_item_id_or_zero = 0,
                                      datasize = of_nat blob_body_size,
                                      first_item_type_or_zero = item_type_undefined\<rparr>]
                             else m_block_starts this);
                          offset2 = offset1 + blob_body_size
                      in Inr (offset2, \<lparr>m_block_starts = starts, m_fd = file_seek f2 offset2\<rparr>))))"

lemma decode_blob_header_pos:
  "decode_blob_header pbf_blob_header data expected_type = Inr n \<Longrightarrow> 0 < n"
  by (auto simp: decode_blob_header_def split: option.splits prod.splits if_splits)

lemma digest_and_skip_block_advances:
  assumes "digest_and_skip_block char_is_signed pbf_blob_header this current_offset fsz should_index_block
           = Inr (offset', this')"
  shows "current_offset + 5 \<le> offset'"
  using assms
  by (auto simp: digest_and_skip_block_def Let_def
           split: sum.splits prod.splits bool.splits if_splits
           dest: decode_blob_header_pos)

text \<open>
  The constructor's loop \<open>while (offset < file_size)\<close>. Every round moves the offset
  forward, so the distance to the end of the file shrinks.
\<close>

function index_data_blocks ::
  "bool \<Rightarrow> pbf_message \<Rightarrow> PbfBlockIndexTable \<Rightarrow> nat \<Rightarrow> nat \<Rightarrow> pbf_error + (nat \<times> PbfBlockIndexTable)" where
  "index_data_blocks char_is_signed pbf_blob_header this offset fsz =
     (if offset < fsz then
        (case digest_and_skip_block char_is_signed pbf_blob_header this offset fsz True of
           Inl e \<Rightarrow> Inl e
         | Inr (offset', this') \<Rightarrow> index_data_blocks char_is_signed pbf_blob_header this' offset' fsz)
      else Inr (offset, this))"
  by pat_completeness auto
termination
proof (relation "measure (\<lambda>(char_is_signed, pbf_blob_header, this, offset, fsz). fsz - offset)")
  show "wf (measure (\<lambda>(char_is_signed, pbf_blob_header, this, offset, fsz). fsz - offset))"
    by simp
next
  fix char_is_signed :: bool and pbf_blob_header :: pbf_message and this :: PbfBlockIndexTable
    and offset fsz :: nat and x2 :: "nat \<times> PbfBlockIndexTable" and offset' this'
  assume "offset < fsz"
    and "digest_and_skip_block char_is_signed pbf_blob_header this offset fsz True = Inr x2"
    and "(offset', this') = x2"
  then have "offset + 5 \<le> offset'"
    using digest_and_skip_block_advances [of char_is_signed pbf_blob_header this offset fsz True offset' this']
    by simp
  with \<open>offset < fsz\<close>
  show "((char_is_signed, pbf_blob_header, this', offset', fsz),
         (char_is_signed, pbf_blob_header, this, offset, fsz))
        \<in> measure (\<lambda>(char_is_signed, pbf_blob_header, this, offset, fsz). fsz - offset)"
    by simp
qed

declare index_data_blocks.simps [simp del]

text \<open>
  The constructor. The file's name stands for its content: \<open>open_for_reading\<close> gives a
  descriptor at offset 0. A thrown \<open>pbf_error\<close> leaves no object behind: the result is
  the error alone.
\<close>

definition new_PbfBlockIndexTable ::
  "bool \<Rightarrow> pbf_message \<Rightarrow> byte list \<Rightarrow> pbf_error + PbfBlockIndexTable" where
  "new_PbfBlockIndexTable char_is_signed pbf_blob_header file =
     (let f = open_for_reading file;
          fsz = file_size f
      in case digest_and_skip_block char_is_signed pbf_blob_header
                \<lparr>m_block_starts = [], m_fd = f\<rparr> 0 fsz False of
           Inl e \<Rightarrow> Inl e
         | Inr (offset, this) \<Rightarrow>
             (case index_data_blocks char_is_signed pbf_blob_header this offset fsz of
                Inl e \<Rightarrow> Inl e
              | Inr (offset', this') \<Rightarrow>
                  if offset' > fsz then Inl FileSizeMismatch else Inr this'))"

definition block_starts :: "PbfBlockIndexTable \<Rightarrow> pbf_block_start list" where
  "block_starts this = m_block_starts this"

subsection \<open>Decoding a block on demand\<close>

text \<open>
  Modelled from the spec: a block's body decodes into zero or more Items, which
  \<open>buffer.begin<osmium::OSMObject>()\<close> walks through in order; an object shows its id
  and its type. The block decoder (\<open>PBFDataBlobDecoder\<close>) is external: a parameter of
  the model, from the body's bytes, the entity kinds to decode and the metadata flag to
  the decoded buffer, or \<open>None\<close> when it raises.
\<close>

record OSMObject =
  object_id :: object_id_type
  object_type :: item_type

type_synonym decoded_buffer = "OSMObject list"

datatype read_meta = read_meta_no | read_meta_yes

type_synonym osm_entity_bits = "8 word"

definition osm_entity_bits_all :: osm_entity_bits where
  "osm_entity_bits_all = 0x1F"

type_synonym PBFDataBlobDecoder =
  "byte list \<Rightarrow> osm_entity_bits \<Rightarrow> read_meta \<Rightarrow> decoded_buffer option"

text \<open>
  \<open>get_parsed_block\<close> returns the buffer or the error thrown, and the table as the call
  leaves it. An index outside the table breaks the precondition; the model returns
  \<open>InvalidBlockIndex\<close> and leaves the table alone.
\<close>

definition get_parsed_block ::
  "PBFDataBlobDecoder \<Rightarrow> PbfBlockIndexTable \<Rightarrow> nat \<Rightarrow> read_meta
   \<Rightarrow> (pbf_error + decoded_buffer) \<times> PbfBlockIndexTable" where
  "get_parsed_block data_blob_parser this block_index read_metadata =
     (if block_index \<ge> length (m_block_starts this) then (Inl InvalidBlockIndex, this)
      else
        let read_types = osm_entity_bits_all;
            block_start = m_block_starts this ! block_index;
            f1 = file_seek (m_fd this) (file_offset block_start)
        in case read_exactly f1 (unat (datasize block_start)) of
             (False, _, f2) \<Rightarrow> (Inl UnexpectedEOF, this\<lparr>m_fd := f2\<rparr>)
           | (True, input_buffer, f2) \<Rightarrow>
               (case data_blob_parser input_buffer read_types read_metadata of
                  None \<Rightarrow> (Inl BlockDecodeError, this\<lparr>m_fd := f2\<rparr>)
                | Some buffer \<Rightarrow>
                    let block_start' =
                          (if first_item_type_or_zero block_start = item_type_undefined
                           then (case buffer of
                                   [] \<Rightarrow> block_start
                                 | it # _ \<Rightarrow>
                                     block_start\<lparr>first_item_id_or_zero := object_id it,
                                                 first_item_type_or_zero := object_type it\<rparr>)
                           else block_start)
                    in (Inr buffer,
                        \<lparr>m_block_starts = (m_block_starts this)[block_index := block_start'],
                         m_fd = f2\<rparr>)))"

subsection \<open>Container files, as the format describes them\<close>

text \<open>
  A container file is a sequence of blocks; a block is a 4-byte big-endian length, a
  header message of that length, and a body. These definitions describe files; the
  code above reads them.
\<close>

definition be32 :: "nat \<Rightarrow> byte list" where
  "be32 n = [of_nat (n div 2 ^ 24), of_nat (n div 2 ^ 16), of_nat (n div 2 ^ 8), of_nat n]"

record block =
  blob_header :: "byte list"
  blob_body :: "byte list"

definition block_bytes :: "block \<Rightarrow> byte list" where
  "block_bytes b = be32 (length (blob_header b)) @ blob_header b @ blob_body b"

definition container_bytes :: "block list \<Rightarrow> byte list" where
  "container_bytes bs = concat (map block_bytes bs)"

fun type_fields :: "pbf_field list \<Rightarrow> byte list list" where
  "type_fields [] = []"
| "type_fields (length_delimited_field tag v # fs) =
     (if tag = required_string_type then v # type_fields fs else type_fields fs)"
| "type_fields (f # fs) = type_fields fs"

fun datasize_fields :: "pbf_field list \<Rightarrow> 64 word list" where
  "datasize_fields [] = []"
| "datasize_fields (varint_field tag v # fs) =
     (if tag = required_int32_datasize then v # datasize_fields fs else datasize_fields fs)"
| "datasize_fields (f # fs) = datasize_fields fs"

text \<open>
  A header message declares type \<open>ty\<close> and datasize \<open>n\<close> when the reader finds in it
  exactly one type field, holding \<open>ty\<close>, and exactly one datasize field, holding \<open>n\<close>.
\<close>

definition header_declares :: "pbf_message \<Rightarrow> byte list \<Rightarrow> byte list \<Rightarrow> nat \<Rightarrow> bool" where
  "header_declares pbf_blob_header hdr ty n =
     (case pbf_blob_header hdr of
        None \<Rightarrow> False
      | Some fs \<Rightarrow> type_fields fs = [ty] \<and> datasize_fields fs = [of_nat n])"

text \<open>
  A well-formed block: the header is no longer than the small-header bound and declares
  the expected type and the body's size, which is positive and within the block-size
  bound.
\<close>

definition well_formed_block :: "pbf_message \<Rightarrow> byte list \<Rightarrow> block \<Rightarrow> bool" where
  "well_formed_block pbf_blob_header expected_type b =
     (length (blob_header b) \<le> 64 \<and>
      0 < length (blob_body b) \<and> length (blob_body b) \<le> max_block_size \<and>
      header_declares pbf_blob_header (blob_header b) expected_type (length (blob_body b)))"

text \<open>
  A block as the constructor accepts it: the header is no longer than the small-header
  bound and \<open>decode_blob_header\<close> returns for it, with the expected type, the size of
  the body, which is within the block-size bound. A file has at most one decomposition
  into such blocks, since each length prefix and each header fix where the next block
  starts.
\<close>

definition accepted_block :: "pbf_message \<Rightarrow> byte list \<Rightarrow> block \<Rightarrow> bool" where
  "accepted_block pbf_blob_header expected_type b =
     (length (blob_header b) \<le> 64 \<and>
      decode_blob_header pbf_blob_header (blob_header b) expected_type
      = Inr (length (blob_body b)) \<and>
      length (blob_body b) \<le> max_block_size)"


text \<open>
  The index entries of the blocks \<open>bs\<close> that start at offset \<open>off\<close>: one entry per
  block, in file order, with the offset of the block's body, the body's size, and the
  first-item fields unknown.
\<close>

fun block_start_entries :: "nat \<Rightarrow> block list \<Rightarrow> pbf_block_start list" where
  "block_start_entries off [] = []"
| "block_start_entries off (b # bs) =
     \<lparr>file_offset = off + 4 + length (blob_header b),
      first_item_id_or_zero = 0,
      datasize = of_nat (length (blob_body b)),
      first_item_type_or_zero = item_type_undefined\<rparr>
     # block_start_entries (off + length (block_bytes b)) bs"

subsection \<open>A message reader and an example file\<close>

text \<open>
  A reader for the protobuf wire format (varints, tags with wire types 0, 1, 2 and 5),
  to stand for the external message reader in concrete examples. The theorems below hold
  for every reader.
\<close>

fun decode_varint :: "nat \<Rightarrow> byte list \<Rightarrow> (64 word \<times> byte list) option" where
  "decode_varint shift [] = None"
| "decode_varint shift (b # bs) =
     (if shift \<ge> 70 then None
      else if b AND 0x80 = 0 then Some (push_bit shift (ucast b), bs)
      else (case decode_varint (shift + 7) bs of
              None \<Rightarrow> None
            | Some (v, rest) \<Rightarrow> Some (push_bit shift (ucast (b AND 0x7F)) OR v, rest)))"

fun wire_fields :: "nat \<Rightarrow> byte list \<Rightarrow> pbf_field list option" where
  "wire_fields 0 bs = (if bs = [] then Some [] else None)"
| "wire_fields (Suc k) bs =
     (if bs = [] then Some []
      else (case decode_varint 0 bs of
              None \<Rightarrow> None
            | Some (key, r1) \<Rightarrow>
                (let tag = unat (drop_bit 3 key); wire_type = key AND 7
                 in if wire_type = 0 then
                      (case decode_varint 0 r1 of
                         None \<Rightarrow> None
                       | Some (v, r2) \<Rightarrow> map_option ((#) (varint_field tag v)) (wire_fields k r2))
                    else if wire_type = 2 then
                      (case decode_varint 0 r1 of
                         None \<Rightarrow> None
                       | Some (len, r2) \<Rightarrow>
                           if length r2 < unat len then None
                           else map_option ((#) (length_delimited_field tag (take (unat len) r2)))
                                  (wire_fields k (drop (unat len) r2)))
                    else if wire_type = 1 then
                      (if length r1 < 8 then None
                       else map_option ((#) (fixed64_field tag (word_rcat (rev (take 8 r1)))))
                              (wire_fields k (drop 8 r1)))
                    else if wire_type = 5 then
                      (if length r1 < 4 then None
                       else map_option ((#) (fixed32_field tag (word_rcat (rev (take 4 r1)))))
                              (wire_fields k (drop 4 r1)))
                    else None)))"

definition protobuf_reader :: pbf_message where
  "protobuf_reader data = wire_fields (length data) data"

text \<open>
  The bytes of a \<open>BlobHeader\<close> message with a type and a datasize below 128, and an
  example file: a header block and three data blocks with bodies of 3, 1 and 2 bytes.
\<close>

definition blob_header_bytes :: "byte list \<Rightarrow> nat \<Rightarrow> byte list" where
  "blob_header_bytes ty n = [0x0A, of_nat (length ty)] @ ty @ [0x18, of_nat n]"

definition ex_header :: block where
  "ex_header = \<lparr>blob_header = blob_header_bytes OSMHeader 2, blob_body = [0xAA, 0xBB]\<rparr>"

definition ex_data :: "block list" where
  "ex_data = [\<lparr>blob_header = blob_header_bytes OSMData 3, blob_body = [1, 2, 3]\<rparr>,
              \<lparr>blob_header = blob_header_bytes OSMData 1, blob_body = [4]\<rparr>,
              \<lparr>blob_header = blob_header_bytes OSMData 2, blob_body = [5, 6]\<rparr>]"


text \<open>
  A file whose header block declares the type \<open>OSM\<close> and whose only data block
  declares the empty type.
\<close>

definition ex_prefix_typed :: "block list" where
  "ex_prefix_typed =
     [\<lparr>blob_header = blob_header_bytes (bytes_of ''OSM'') 2, blob_body = [0xAA, 0xBB]\<rparr>,
      \<lparr>blob_header = blob_header_bytes [] 3, blob_body = [1, 2, 3]\<rparr>]"

text \<open>
  A header that declares a datasize of 21 MiB (the varint \<open>80 80 C0 0A\<close>), above the
  block-size bound.
\<close>

definition ex_oversize_header :: "byte list" where
  "ex_oversize_header = [0x0A, 7] @ OSMData @ [0x18, 0x80, 0x80, 0xC0, 0x0A]"

subsection \<open>Sequences of decode calls\<close>

text \<open>
  A sequence of \<open>get_parsed_block\<close> calls on one table, each with its index and its
  metadata flag; whatever a call returns or throws, the next call works on the table as
  the last one left it.
\<close>

fun get_parsed_blocks ::
  "PBFDataBlobDecoder \<Rightarrow> PbfBlockIndexTable \<Rightarrow> (nat \<times> read_meta) list \<Rightarrow> PbfBlockIndexTable" where
  "get_parsed_blocks dec this [] = this"
| "get_parsed_blocks dec this ((i, m) # calls) =
     get_parsed_blocks dec (snd (get_parsed_block dec this i m)) calls"

text \<open>
  The first-item fields of an entry are unknown: the id is zero and the type undefined.
\<close>

definition unknown_first_item :: "pbf_block_start \<Rightarrow> bool" where
  "unknown_first_item e =
     (first_item_id_or_zero e = 0 \<and> first_item_type_or_zero e = item_type_undefined)"

text \<open>
  What the typed iteration over a decoded buffer shows are OSM objects (nodes, ways,
  relations, areas): never an item of undefined type.
\<close>

definition decodes_objects :: "PBFDataBlobDecoder \<Rightarrow> bool" where
  "decodes_objects dec =
     (\<forall>input types m buf ob. dec input types m = Some buf \<longrightarrow> ob \<in> set buf
        \<longrightarrow> object_type ob \<noteq> item_type_undefined)"

text \<open>
  Two block decoders for examples: both turn every byte of the body into a node with the
  byte as id; the first decodes nothing unless nodes are asked for, the second ignores
  the kinds asked for. The table is the index of the example file.
\<close>

definition ex_decoder :: PBFDataBlobDecoder where
  "ex_decoder input read_types read_metadata =
     Some (map (\<lambda>b. \<lparr>object_id = ucast b, object_type = item_type_node\<rparr>)
             (if read_types AND 1 = 0 then [] else input))"

definition ex_decoder_any :: PBFDataBlobDecoder where
  "ex_decoder_any input read_types read_metadata =
     Some (map (\<lambda>b. \<lparr>object_id = ucast b, object_type = item_type_node\<rparr>) input)"

definition ex_table :: PbfBlockIndexTable where
  "ex_table =
     \<lparr>m_block_starts =
        [\<lparr>file_offset = 34, first_item_id_or_zero = 0, datasize = 3,
          first_item_type_or_zero = item_type_undefined\<rparr>,
         \<lparr>file_offset = 52, first_item_id_or_zero = 0, datasize = 1,
          first_item_type_or_zero = item_type_undefined\<rparr>,
         \<lparr>file_offset = 68, first_item_id_or_zero = 0, datasize = 2,
          first_item_type_or_zero = item_type_undefined\<rparr>],
      m_fd = \<lparr>fd_content = container_bytes (ex_header # ex_data), fd_pos = 70\<rparr>\<rparr>"

section \<open>Builders (include/osmium/builder/osm\_object\_builder.hpp)\<close>

subsection \<open>The arena buffer\<close>

text \<open>
  Modelled from the spec: the Arena Buffer (\<open>osmium::memory::Buffer\<close>, declared outside
  this header) is an append-only byte store; \<open>reserve(n)\<close> grows the store so that the next
  \<open>n\<close> bytes can be written and returns a location to write them; content already
  committed is never altered by later reservations. Locations are offsets from the start
  of the store, so growth does not move them. The store is a function from offsets to
  bytes: what lies at or beyond \<open>m_written\<close> is not reserved yet, and a fresh reservation
  holds whatever bytes were there.
\<close>

record Buffer =
  m_data :: "nat \<Rightarrow> byte"
  m_written :: nat
  m_committed :: nat

definition Buffer_reserve_space :: "Buffer \<Rightarrow> nat \<Rightarrow> nat \<times> Buffer" where
  "Buffer_reserve_space buffer n = (m_written buffer, buffer\<lparr>m_written := m_written buffer + n\<rparr>)"

text \<open>\<open>std::copy_n\<close> and \<open>std::fill_n\<close> into the store, and reading bytes back.\<close>

definition copy_n :: "byte list \<Rightarrow> nat \<Rightarrow> Buffer \<Rightarrow> Buffer" where
  "copy_n src target buffer =
     buffer\<lparr>m_data := (\<lambda>a. if target \<le> a \<and> a < target + length src
                           then src ! (a - target) else m_data buffer a)\<rparr>"

definition fill_n :: "nat \<Rightarrow> nat \<Rightarrow> byte \<Rightarrow> Buffer \<Rightarrow> Buffer" where
  "fill_n target n v buffer = copy_n (replicate n v) target buffer"

definition bytes_at :: "Buffer \<Rightarrow> nat \<Rightarrow> nat \<Rightarrow> byte list" where
  "bytes_at buffer addr n = map (m_data buffer) [addr..<addr + n]"

text \<open>
  Modelled from the spec: fixed-width fields of a record are stored in the machine's
  byte order (little-endian here; the facts below do not depend on the choice).
\<close>

definition put_uint16 :: "nat \<Rightarrow> 16 word \<Rightarrow> Buffer \<Rightarrow> Buffer" where
  "put_uint16 addr v buffer = copy_n [ucast v, ucast (drop_bit 8 v)] addr buffer"

definition get_uint16 :: "Buffer \<Rightarrow> nat \<Rightarrow> 16 word" where
  "get_uint16 buffer addr = word_cat (m_data buffer (addr + 1)) (m_data buffer addr)"

definition put_uint32 :: "nat \<Rightarrow> 32 word \<Rightarrow> Buffer \<Rightarrow> Buffer" where
  "put_uint32 addr v buffer =
     copy_n [ucast v, ucast (drop_bit 8 v), ucast (drop_bit 16 v), ucast (drop_bit 24 v)] addr buffer"

definition get_uint32 :: "Buffer \<Rightarrow> nat \<Rightarrow> 32 word" where
  "get_uint32 buffer addr =
     word_cat (word_cat (m_data buffer (addr + 3)) (m_data buffer (addr + 2)) :: 16 word)
              (word_cat (m_data buffer (addr + 1)) (m_data buffer addr) :: 16 word)"

text \<open>
  Modelled from the spec: every Item's physical extent is padded to a fixed alignment
  unit, 8 bytes.
\<close>

definition align_bytes :: nat where
  "align_bytes = 8"

definition padded_length :: "nat \<Rightarrow> nat" where
  "padded_length n = ((n + align_bytes - 1) div align_bytes) * align_bytes"

text \<open>
  Modelled from the spec: a value of a record type built in place at a location writes the
  bytes of its representation there; an Item starts with its content-length field, which
  its constructor sets to the size of the fixed part.
\<close>

definition placement_new :: "nat \<Rightarrow> nat \<Rightarrow> (nat \<Rightarrow> byte) \<Rightarrow> Buffer \<Rightarrow> Buffer" where
  "placement_new addr sz repr buffer = copy_n (map repr [0..<sz]) addr buffer"

definition placement_new_Item :: "nat \<Rightarrow> nat \<Rightarrow> (nat \<Rightarrow> byte) \<Rightarrow> Buffer \<Rightarrow> Buffer" where
  "placement_new_Item addr sz repr buffer =
     put_uint32 addr (of_nat sz) (placement_new addr sz repr buffer)"

definition Item_byte_size :: "Buffer \<Rightarrow> nat \<Rightarrow> 32 word" where
  "Item_byte_size buffer addr = get_uint32 buffer addr"

definition Item_add_size :: "nat \<Rightarrow> 32 word \<Rightarrow> Buffer \<Rightarrow> Buffer" where
  "Item_add_size addr n buffer = put_uint32 addr (get_uint32 buffer addr + n) buffer"

subsection \<open>The generic builder\<close>

text \<open>
  Modelled from the spec: the Builder Protocol (class \<open>Builder\<close>, declared outside this
  header). A builder is bound to one in-progress Item, whose start it records as an offset
  from the committed end of the buffer, and optionally to a parent builder. Construction
  reserves the space of the fixed header and adds its size to every ancestor;
  \<open>append\<close> reserves space, writes the bytes and returns their number; \<open>add_size\<close> adds
  to this Item's content-length and to every ancestor's; \<open>add_padding\<close> writes zero
  bytes up to the next alignment boundary. A reservation never fails.
\<close>

datatype Builder = Builder (m_item_offset: nat) (m_parent: "Builder option")

definition item_pos :: "Builder \<Rightarrow> Buffer \<Rightarrow> nat" where
  "item_pos this buffer = m_committed buffer + m_item_offset this"

definition Builder_size :: "Builder \<Rightarrow> Buffer \<Rightarrow> 32 word" where
  "Builder_size this buffer = Item_byte_size buffer (item_pos this buffer)"

definition reserve_space :: "Buffer \<Rightarrow> nat \<Rightarrow> nat \<times> Buffer" where
  "reserve_space buffer n = Buffer_reserve_space buffer n"

fun add_size :: "Builder \<Rightarrow> 32 word \<Rightarrow> Buffer \<Rightarrow> Buffer" where
  "add_size (Builder off None) n buffer = Item_add_size (m_committed buffer + off) n buffer"
| "add_size (Builder off (Some parent)) n buffer =
     add_size parent n (Item_add_size (m_committed buffer + off) n buffer)"

definition new_Builder :: "Buffer \<Rightarrow> Builder option \<Rightarrow> nat \<Rightarrow> Builder \<times> Buffer" where
  "new_Builder buffer parent sz =
     (let this = Builder (m_written buffer - m_committed buffer) parent;
          b1 = snd (reserve_space buffer sz)
      in (this, case parent of None \<Rightarrow> b1 | Some p \<Rightarrow> add_size p (of_nat sz) b1))"

definition append :: "byte list \<Rightarrow> Buffer \<Rightarrow> 32 word \<times> Buffer" where
  "append data buffer =
     (let (target, b1) = reserve_space buffer (length data)
      in (of_nat (length data), copy_n data target b1))"


definition append_with_zero :: "byte list \<Rightarrow> Buffer \<Rightarrow> 32 word \<times> Buffer" where
  "append_with_zero data buffer =
     (let (target, b1) = reserve_space buffer (length data + 1);
          b2 = copy_n data target b1;
          b3 = copy_n [0] (target + length data) b2
      in (of_nat (length data) + 1, b3))"

definition add_padding :: "Builder \<Rightarrow> bool \<Rightarrow> Buffer \<Rightarrow> Buffer" where
  "add_padding this self buffer =
     (let padding = align_bytes - (unat (Builder_size this buffer) mod align_bytes)
      in if padding \<noteq> align_bytes then
           (let (target, b1) = reserve_space buffer padding;
                b2 = fill_n target padding 0 b1
            in if self then add_size this (of_nat padding) b2
               else (case m_parent this of
                       None \<Rightarrow> b2
                     | Some p \<Rightarrow> add_size p (of_nat padding) b2))
         else buffer)"


subsection \<open>Outcomes, string bounds and record layouts\<close>

text \<open>
  A builder operation returns, throws \<open>std::length_error\<close> (with the state as it is at
  the throw), or fails an assertion. The error names the field that was too long.
\<close>

datatype length_error =
    tag_key_too_long
  | tag_value_too_long
  | role_too_long
  | user_name_too_long
  | comment_too_long

datatype 's outcome = Done 's | Throws length_error 's | Assertion_failed




text \<open>
  Modelled from the spec: the maximum length of a string field (\<open>max_osm_string_length\<close>
  of \<open>osm/types.hpp\<close>, \<open>256 * 4\<close>), the width of the length field of a string
  (\<open>string_size_type\<close>, 16 bits) and the largest value of the length field of a comment
  text (\<open>changeset_comment_size_type\<close>, 32 bits).
\<close>

definition max_osm_string_length :: nat where
  "max_osm_string_length = 256 * 4"

type_synonym string_size_type = "16 word"

definition sizeof_string_size_type :: nat where
  "sizeof_string_size_type = 2"

definition changeset_comment_size_max :: nat where
  "changeset_comment_size_max = 2 ^ 32 - 1"

text \<open>
  The record types built in place are declared outside this header: their sizes, the
  places of the length fields in them and the bytes their constructors write are
  parameters of the model.
\<close>

record layout =
  sizeof_TagList :: nat
  TagList_repr :: "nat \<Rightarrow> byte"
  sizeof_RelationMemberList :: nat
  RelationMemberList_repr :: "nat \<Rightarrow> byte"
  sizeof_RelationMember :: nat
  RelationMember_repr :: "object_id_type \<Rightarrow> item_type \<Rightarrow> bool \<Rightarrow> nat \<Rightarrow> byte"
  role_size_offset :: nat
  sizeof_ChangesetDiscussion :: nat
  ChangesetDiscussion_repr :: "nat \<Rightarrow> byte"
  sizeof_ChangesetComment :: nat
  ChangesetComment_repr :: "32 word \<Rightarrow> 32 word \<Rightarrow> nat \<Rightarrow> byte"
  comment_user_size_offset :: nat
  comment_text_size_offset :: nat
  sizeof_Changeset :: nat
  Changeset_repr :: "nat \<Rightarrow> byte"
  changeset_user_size_offset :: nat

subsection \<open>TagListBuilder\<close>

definition new_TagListBuilder :: "layout \<Rightarrow> Buffer \<Rightarrow> Builder option \<Rightarrow> Builder \<times> Buffer" where
  "new_TagListBuilder L buffer parent =
     (let (this, b1) = new_Builder buffer parent (sizeof_TagList L)
      in (this, placement_new_Item (item_pos this b1) (sizeof_TagList L) (TagList_repr L) b1))"

definition delete_TagListBuilder :: "Builder \<Rightarrow> Buffer \<Rightarrow> Buffer" where
  "delete_TagListBuilder this buffer = add_padding this False buffer"








subsection \<open>RelationMemberListBuilder\<close>

definition new_RelationMemberListBuilder ::
  "layout \<Rightarrow> Buffer \<Rightarrow> Builder option \<Rightarrow> Builder \<times> Buffer" where
  "new_RelationMemberListBuilder L buffer parent =
     (let (this, b1) = new_Builder buffer parent (sizeof_RelationMemberList L)
      in (this, placement_new_Item (item_pos this b1) (sizeof_RelationMemberList L)
                  (RelationMemberList_repr L) b1))"






subsection \<open>ChangesetDiscussionBuilder\<close>

text \<open>
  The builder's own state is the pending comment \<open>m_comment\<close>: the location of the
  comment begun and not yet given its text, or \<open>None\<close> for the null pointer.
\<close>

record ChangesetDiscussionBuilder =
  cd_buffer :: Buffer
  m_comment :: "nat option"

definition ChangesetComment_set_user_size ::
  "layout \<Rightarrow> nat \<Rightarrow> string_size_type \<Rightarrow> Buffer \<Rightarrow> Buffer" where
  "ChangesetComment_set_user_size L comment v buffer =
     put_uint16 (comment + comment_user_size_offset L) v buffer"

definition ChangesetComment_set_text_size :: "layout \<Rightarrow> nat \<Rightarrow> 32 word \<Rightarrow> Buffer \<Rightarrow> Buffer" where
  "ChangesetComment_set_text_size L comment v buffer =
     put_uint32 (comment + comment_text_size_offset L) v buffer"

definition add_user :: "layout \<Rightarrow> Builder \<Rightarrow> nat \<Rightarrow> byte list \<Rightarrow> Buffer \<Rightarrow> Buffer outcome" where
  "add_user L this comment user buffer =
     (if length user > max_osm_string_length then Throws user_name_too_long buffer
      else
        let b1 = ChangesetComment_set_user_size L comment (of_nat (length user) + 1) buffer;
            (n, b2) = append_with_zero user b1
        in Done (add_size this n b2))"

definition add_text :: "layout \<Rightarrow> Builder \<Rightarrow> nat \<Rightarrow> byte list \<Rightarrow> Buffer \<Rightarrow> Buffer outcome" where
  "add_text L this comment text buffer =
     (if length text > changeset_comment_size_max - 1 then Throws comment_too_long buffer
      else
        let b1 = ChangesetComment_set_text_size L comment (of_nat (length text) + 1) buffer;
            (n, b2) = append_with_zero text b1;
            b3 = add_size this n b2
        in Done (add_padding this True b3))"

definition new_ChangesetDiscussionBuilder ::
  "layout \<Rightarrow> Buffer \<Rightarrow> Builder option \<Rightarrow> Builder \<times> ChangesetDiscussionBuilder" where
  "new_ChangesetDiscussionBuilder L buffer parent =
     (let (this, b1) = new_Builder buffer parent (sizeof_ChangesetDiscussion L)
      in (this,
          \<lparr>cd_buffer = placement_new_Item (item_pos this b1) (sizeof_ChangesetDiscussion L)
                          (ChangesetDiscussion_repr L) b1,
           m_comment = None\<rparr>))"

definition delete_ChangesetDiscussionBuilder ::
  "Builder \<Rightarrow> ChangesetDiscussionBuilder \<Rightarrow> Buffer outcome" where
  "delete_ChangesetDiscussionBuilder this s =
     (if m_comment s \<noteq> None then Assertion_failed
      else Done (add_padding this False (cd_buffer s)))"

definition add_comment ::
  "layout \<Rightarrow> Builder \<Rightarrow> 32 word \<Rightarrow> 32 word \<Rightarrow> byte list \<Rightarrow> ChangesetDiscussionBuilder
   \<Rightarrow> ChangesetDiscussionBuilder outcome" where
  "add_comment L this date uid user s =
     (if m_comment s \<noteq> None then Assertion_failed
      else
        let (comment, b1) = reserve_space (cd_buffer s) (sizeof_ChangesetComment L);
            b2 = placement_new comment (sizeof_ChangesetComment L)
                   (ChangesetComment_repr L date uid) b1;
            b3 = add_size this (of_nat (sizeof_ChangesetComment L)) b2
        in case add_user L this comment user b3 of
             Done b4 \<Rightarrow> Done \<lparr>cd_buffer = b4, m_comment = Some comment\<rparr>
           | Throws e b4 \<Rightarrow> Throws e \<lparr>cd_buffer = b4, m_comment = Some comment\<rparr>
           | Assertion_failed \<Rightarrow> Assertion_failed)"

text \<open>\<open>add_comment_text(const char* text)\<close> and \<open>add_comment_text(const std::string& text)\<close>.\<close>

definition add_comment_text_cstr ::
  "layout \<Rightarrow> Builder \<Rightarrow> byte list \<Rightarrow> ChangesetDiscussionBuilder
   \<Rightarrow> ChangesetDiscussionBuilder outcome" where
  "add_comment_text_cstr L this text s =
     (case m_comment s of
        None \<Rightarrow> Assertion_failed
      | Some comment \<Rightarrow>
          (case add_text L this comment text (cd_buffer s) of
             Done b \<Rightarrow> Done \<lparr>cd_buffer = b, m_comment = None\<rparr>
           | Throws e b \<Rightarrow> Throws e \<lparr>cd_buffer = b, m_comment = None\<rparr>
           | Assertion_failed \<Rightarrow> Assertion_failed))"

definition add_comment_text_string ::
  "layout \<Rightarrow> Builder \<Rightarrow> byte list \<Rightarrow> ChangesetDiscussionBuilder
   \<Rightarrow> ChangesetDiscussionBuilder outcome" where
  "add_comment_text_string L this text s =
     (case m_comment s of
        None \<Rightarrow> Assertion_failed
      | Some comment \<Rightarrow>
          (case add_text L this comment text (cd_buffer s) of
             Done b \<Rightarrow> Done \<lparr>cd_buffer = b, m_comment = None\<rparr>
           | Throws e b \<Rightarrow> Throws e \<lparr>cd_buffer = b, m_comment = None\<rparr>
           | Assertion_failed \<Rightarrow> Assertion_failed))"

subsection \<open>OSMObjectBuilder\<close>

text \<open>
  The template \<open>OSMObjectBuilder<TDerived, T>\<close>, for \<open>T\<close> one of \<open>Node\<close>, \<open>Way\<close>,
  \<open>Relation\<close> and \<open>Area\<close>: the size of \<open>T\<close> and the bytes of a value-initialised \<open>T\<close>
  are parameters. The length field of the user name is the \<open>string_size_type\<close> right
  after the fixed part, at \<open>data() + sizeof(T)\<close>; the name follows it, at
  \<open>data() + sizeof(T) + sizeof(string_size_type)\<close>, where \<open>set_user\<close> copies it.
\<close>

definition min_size_for_user :: nat where
  "min_size_for_user = padded_length (sizeof_string_size_type + 1)"

definition OSMObject_set_user_size :: "nat \<Rightarrow> nat \<Rightarrow> string_size_type \<Rightarrow> Buffer \<Rightarrow> Buffer" where
  "OSMObject_set_user_size sizeof_T object v buffer = put_uint16 (object + sizeof_T) v buffer"

definition OSMObject_user_size :: "nat \<Rightarrow> Buffer \<Rightarrow> nat \<Rightarrow> string_size_type" where
  "OSMObject_user_size sizeof_T buffer object = get_uint16 buffer (object + sizeof_T)"

definition new_OSMObjectBuilder ::
  "nat \<Rightarrow> (nat \<Rightarrow> byte) \<Rightarrow> Buffer \<Rightarrow> Builder option \<Rightarrow> Builder \<times> Buffer" where
  "new_OSMObjectBuilder sizeof_T T_repr buffer parent =
     (let (this, b1) = new_Builder buffer parent (sizeof_T + min_size_for_user);
          b2 = placement_new_Item (item_pos this b1) sizeof_T T_repr b1;
          b3 = add_size this (of_nat min_size_for_user) b2;
          b4 = fill_n (item_pos this b3 + sizeof_T) min_size_for_user 0 b3
      in (this, OSMObject_set_user_size sizeof_T (item_pos this b4) 1 b4))"

definition OSMObjectBuilder_set_user ::
  "nat \<Rightarrow> Builder \<Rightarrow> byte list \<Rightarrow> string_size_type \<Rightarrow> Buffer \<Rightarrow> Buffer outcome" where
  "OSMObjectBuilder_set_user sizeof_T this user len buffer =
     (let size_of_object = sizeof_T + sizeof_string_size_type
      in if \<not> (OSMObject_user_size sizeof_T buffer (item_pos this buffer) = 1 \<and>
                unat (Builder_size this buffer) \<le> size_of_object + padded_length 1)
         then Assertion_failed
         else
           let available_space = min_size_for_user - sizeof_string_size_type - 1;
               b1 = (if unat len > available_space then
                       let space_needed = padded_length (unat len - available_space);
                           (target, b') = reserve_space buffer space_needed;
                           b'' = fill_n target space_needed 0 b'
                       in add_size this (of_nat space_needed) b''
                     else buffer);
               b2 = copy_n (take (unat len) user) (item_pos this b1 + size_of_object) b1
           in Done (OSMObject_set_user_size sizeof_T (item_pos this b2) (of_nat (unat len + 1)) b2))"

text \<open>\<open>set_user(const char* user)\<close> and \<open>set_user(const std::string& user)\<close>.\<close>

definition OSMObjectBuilder_set_user_cstr ::
  "nat \<Rightarrow> Builder \<Rightarrow> byte list \<Rightarrow> Buffer \<Rightarrow> Buffer outcome" where
  "OSMObjectBuilder_set_user_cstr sizeof_T this user buffer =
     (if \<not> length user < 2 ^ 16 - 1 then Assertion_failed
      else OSMObjectBuilder_set_user sizeof_T this user (of_nat (length user)) buffer)"

definition OSMObjectBuilder_set_user_string ::
  "nat \<Rightarrow> Builder \<Rightarrow> byte list \<Rightarrow> Buffer \<Rightarrow> Buffer outcome" where
  "OSMObjectBuilder_set_user_string sizeof_T this user buffer =
     (if \<not> length user < 2 ^ 16 - 1 then Assertion_failed
      else OSMObjectBuilder_set_user sizeof_T this user (of_nat (length user)) buffer)"

text \<open>What a reader of the object finds: the stored length and the bytes of the name.\<close>

definition OSMObject_user :: "nat \<Rightarrow> Buffer \<Rightarrow> nat \<Rightarrow> byte list" where
  "OSMObject_user sizeof_T buffer object =
     bytes_at buffer (object + sizeof_T + sizeof_string_size_type)
       (unat (OSMObject_user_size sizeof_T buffer object) - 1)"

subsection \<open>ChangesetBuilder\<close>

text \<open>
  The length field of the user name is a member of \<open>Changeset\<close>, at an offset inside
  the fixed part; the name starts right after the fixed part, at
  \<open>data() + sizeof(Changeset)\<close>.
\<close>

definition changeset_min_size_for_user :: nat where
  "changeset_min_size_for_user = padded_length 1"

definition Changeset_set_user_size :: "layout \<Rightarrow> nat \<Rightarrow> string_size_type \<Rightarrow> Buffer \<Rightarrow> Buffer" where
  "Changeset_set_user_size L changeset v buffer =
     put_uint16 (changeset + changeset_user_size_offset L) v buffer"

definition Changeset_user_size :: "layout \<Rightarrow> Buffer \<Rightarrow> nat \<Rightarrow> string_size_type" where
  "Changeset_user_size L buffer changeset =
     get_uint16 buffer (changeset + changeset_user_size_offset L)"

definition new_ChangesetBuilder :: "layout \<Rightarrow> Buffer \<Rightarrow> Builder option \<Rightarrow> Builder \<times> Buffer" where
  "new_ChangesetBuilder L buffer parent =
     (let (this, b1) = new_Builder buffer parent (sizeof_Changeset L + changeset_min_size_for_user);
          b2 = placement_new_Item (item_pos this b1) (sizeof_Changeset L) (Changeset_repr L) b1;
          b3 = add_size this (of_nat changeset_min_size_for_user) b2;
          b4 = fill_n (item_pos this b3 + sizeof_Changeset L) changeset_min_size_for_user 0 b3
      in (this, Changeset_set_user_size L (item_pos this b4) 1 b4))"

definition ChangesetBuilder_set_user ::
  "layout \<Rightarrow> Builder \<Rightarrow> byte list \<Rightarrow> string_size_type \<Rightarrow> Buffer \<Rightarrow> Buffer outcome" where
  "ChangesetBuilder_set_user L this user len buffer =
     (if \<not> (Changeset_user_size L buffer (item_pos this buffer) = 1 \<and>
             unat (Builder_size this buffer) \<le> sizeof_Changeset L + padded_length 1)
      then Assertion_failed
      else
        let available_space = changeset_min_size_for_user - 1;
            b1 = (if unat len > available_space then
                    let space_needed = padded_length (unat len - available_space);
                        (target, b') = reserve_space buffer space_needed;
                        b'' = fill_n target space_needed 0 b'
                    in add_size this (of_nat space_needed) b''
                  else buffer);
            b2 = copy_n (take (unat len) user) (item_pos this b1 + sizeof_Changeset L) b1
        in Done (Changeset_set_user_size L (item_pos this b2) (of_nat (unat len + 1)) b2))"

definition ChangesetBuilder_set_user_cstr ::
  "layout \<Rightarrow> Builder \<Rightarrow> byte list \<Rightarrow> Buffer \<Rightarrow> Buffer outcome" where
  "ChangesetBuilder_set_user_cstr L this user buffer =
     (if \<not> length user \<le> 2 ^ 16 - 1 then Assertion_failed
      else ChangesetBuilder_set_user L this user (of_nat (length user)) buffer)"

definition ChangesetBuilder_set_user_string ::
  "layout \<Rightarrow> Builder \<Rightarrow> byte list \<Rightarrow> Buffer \<Rightarrow> Buffer outcome" where
  "ChangesetBuilder_set_user_string L this user buffer =
     (if \<not> length user < 2 ^ 16 - 1 then Assertion_failed
      else ChangesetBuilder_set_user L this user (of_nat (length user)) buffer)"

definition Changeset_user :: "layout \<Rightarrow> Buffer \<Rightarrow> nat \<Rightarrow> byte list" where
  "Changeset_user L buffer changeset =
     bytes_at buffer (changeset + sizeof_Changeset L)
       (unat (Changeset_user_size L buffer changeset) - 1)"

subsection \<open>Size fields of the ancestors, and builders whose user name is not set\<close>

text \<open>
  The locations of the content-length fields that \<open>add_size\<close> updates: the one of the
  builder's own Item and those of all its ancestors, given the committed end of the buffer.
\<close>

fun size_field_addrs :: "Builder \<Rightarrow> nat \<Rightarrow> nat set" where
  "size_field_addrs (Builder off None) committed = {committed + off ..< committed + off + 4}"
| "size_field_addrs (Builder off (Some parent)) committed =
     {committed + off ..< committed + off + 4} \<union> size_field_addrs parent committed"

text \<open>
  Items nest: the length fields of the ancestors of a builder lie before its own Item
  (\<open>parent_fields_before\<close>), and when a builder is constructed the Items of its ancestors
  are already written (\<open>ancestors_written\<close>).
\<close>

definition parent_fields_before :: "Builder \<Rightarrow> Buffer \<Rightarrow> bool" where
  "parent_fields_before this buffer =
     (case m_parent this of
        None \<Rightarrow> True
      | Some p \<Rightarrow> \<forall>a\<in>size_field_addrs p (m_committed buffer). a < item_pos this buffer)"

definition ancestors_written :: "Builder option \<Rightarrow> Buffer \<Rightarrow> bool" where
  "ancestors_written parent buffer =
     (case parent of
        None \<Rightarrow> True
      | Some p \<Rightarrow> \<forall>a\<in>size_field_addrs p (m_committed buffer). a < m_written buffer)"

text \<open>
  The state in which \<open>set_user\<close> may be called: the user name has not been set and no
  sub-builder has been opened on the object. The stored length is still 1, the Item is
  not longer than its fixed part and the slot reserved by the constructor, that slot is
  still zero and it is the last thing written to the buffer.
\<close>

definition user_unset :: "nat \<Rightarrow> Builder \<Rightarrow> Buffer \<Rightarrow> bool" where
  "user_unset sizeof_T this buffer =
     (OSMObject_user_size sizeof_T buffer (item_pos this buffer) = 1 \<and>
      unat (Builder_size this buffer) \<le> sizeof_T + min_size_for_user \<and>
      bytes_at buffer (item_pos this buffer + sizeof_T + sizeof_string_size_type)
        (min_size_for_user - sizeof_string_size_type)
      = replicate (min_size_for_user - sizeof_string_size_type) 0 \<and>
      m_written buffer = item_pos this buffer + sizeof_T + min_size_for_user \<and>
      4 \<le> sizeof_T \<and>
      parent_fields_before this buffer)"

definition changeset_user_unset :: "layout \<Rightarrow> Builder \<Rightarrow> Buffer \<Rightarrow> bool" where
  "changeset_user_unset L this buffer =
     (Changeset_user_size L buffer (item_pos this buffer) = 1 \<and>
      unat (Builder_size this buffer) \<le> sizeof_Changeset L + changeset_min_size_for_user \<and>
      bytes_at buffer (item_pos this buffer + sizeof_Changeset L) changeset_min_size_for_user
      = replicate changeset_min_size_for_user 0 \<and>
      m_written buffer = item_pos this buffer + sizeof_Changeset L + changeset_min_size_for_user \<and>
      4 \<le> changeset_user_size_offset L \<and>
      changeset_user_size_offset L + 2 \<le> sizeof_Changeset L \<and>
      parent_fields_before this buffer)"


subsection \<open>Sequences of calls on a ChangesetDiscussionBuilder\<close>

text \<open>
  The public operations of a \<open>ChangesetDiscussionBuilder\<close>, a sequence of them applied to
  the builder, and the whole life of a builder: construction, calls, destruction. A caller
  that catches a \<open>std::length_error\<close> goes on with the builder as the throw left it; a
  failed assertion ends the program.
\<close>

datatype comment_call =
    Add_comment "32 word" "32 word" "byte list"
  | Add_comment_text_cstr "byte list"
  | Add_comment_text_string "byte list"

fun run_call ::
  "layout \<Rightarrow> Builder \<Rightarrow> comment_call \<Rightarrow> ChangesetDiscussionBuilder
   \<Rightarrow> ChangesetDiscussionBuilder outcome" where
  "run_call L this (Add_comment date uid user) s = add_comment L this date uid user s"
| "run_call L this (Add_comment_text_cstr text) s = add_comment_text_cstr L this text s"
| "run_call L this (Add_comment_text_string text) s = add_comment_text_string L this text s"

fun run_calls ::
  "layout \<Rightarrow> Builder \<Rightarrow> comment_call list \<Rightarrow> ChangesetDiscussionBuilder
   \<Rightarrow> ChangesetDiscussionBuilder outcome" where
  "run_calls L this [] s = Done s"
| "run_calls L this (c # cs) s =
     (case run_call L this c s of
        Done s' \<Rightarrow> run_calls L this cs s'
      | Throws e s' \<Rightarrow> run_calls L this cs s'
      | Assertion_failed \<Rightarrow> Assertion_failed)"

definition lifetime :: "layout \<Rightarrow> Buffer \<Rightarrow> Builder option \<Rightarrow> comment_call list \<Rightarrow> Buffer outcome" where
  "lifetime L buffer parent cs =
     (let (this, s) = new_ChangesetDiscussionBuilder L buffer parent
      in case run_calls L this cs s of
           Done s' \<Rightarrow> delete_ChangesetDiscussionBuilder this s'
         | Throws e s' \<Rightarrow> delete_ChangesetDiscussionBuilder this s'
         | Assertion_failed \<Rightarrow> Assertion_failed)"

text \<open>
  Strict alternation: \<open>add_comment\<close>, \<open>add_comment_text\<close>, \<open>add_comment\<close>,
  \<open>add_comment_text\<close>, ... with no comment left pending. \<open>pending_after\<close> tracks
  whether a comment is pending along a sequence, \<open>None\<close> when the order is broken.
\<close>

fun is_begin :: "comment_call \<Rightarrow> bool" where
  "is_begin (Add_comment date uid user) = True"
| "is_begin c = False"

fun alternating :: "comment_call list \<Rightarrow> bool" where
  "alternating [] = True"
| "alternating [c] = False"
| "alternating (b # e # cs) = (is_begin b \<and> \<not> is_begin e \<and> alternating cs)"

fun pending_after :: "bool \<Rightarrow> comment_call list \<Rightarrow> bool option" where
  "pending_after p [] = Some p"
| "pending_after p (c # cs) =
     (if is_begin c then (if p then None else pending_after True cs)
      else (if p then pending_after False cs else None))"

subsection \<open>Example buffers and layouts\<close>

text \<open>
  A buffer with 16 committed bytes, a layout with made-up sizes, and an object of 40 bytes
  and a changeset built in that buffer.
\<close>

definition ex_buffer :: Buffer where
  "ex_buffer = \<lparr>m_data = (\<lambda>a. 0xAA), m_written = 16, m_committed = 16\<rparr>"

definition ex_layout :: layout where
  "ex_layout =
     \<lparr>sizeof_TagList = 8, TagList_repr = (\<lambda>k. 0),
      sizeof_RelationMemberList = 8, RelationMemberList_repr = (\<lambda>k. 0),
      sizeof_RelationMember = 16, RelationMember_repr = (\<lambda>ref type full k. 0),
      role_size_offset = 12,
      sizeof_ChangesetDiscussion = 8, ChangesetDiscussion_repr = (\<lambda>k. 0),
      sizeof_ChangesetComment = 16, ChangesetComment_repr = (\<lambda>date uid k. 0),
      comment_user_size_offset = 12, comment_text_size_offset = 8,
      sizeof_Changeset = 64, Changeset_repr = (\<lambda>k. 0xCC),
      changeset_user_size_offset = 60\<rparr>"

definition ex_object_builder :: "Builder \<times> Buffer" where
  "ex_object_builder = new_OSMObjectBuilder 40 (\<lambda>k. 0xCC) ex_buffer None"

definition ex_changeset_builder :: "Builder \<times> Buffer" where
  "ex_changeset_builder = new_ChangesetBuilder ex_layout ex_buffer None"



definition ex_pending :: ChangesetDiscussionBuilder where
  "ex_pending = \<lparr>cd_buffer = ex_buffer, m_comment = Some 24\<rparr>"

definition ex_not_pending :: ChangesetDiscussionBuilder where
  "ex_not_pending = \<lparr>cd_buffer = ex_buffer, m_comment = None\<rparr>"

section \<open>Facts about the index table\<close>

subsection \<open>Words\<close>

lemma bit_nat_less: "(n::nat) < 2 ^ m \<Longrightarrow> bit n k \<Longrightarrow> k < m"
proof (rule ccontr)
  assume a: "n < 2 ^ m" "bit n k" "\<not> k < m"
  then have "(2::nat) ^ m \<le> 2 ^ k" by simp
  with a have "n < 2 ^ k" by linarith
  then have "n div 2 ^ k = 0" by simp
  with a show False by (simp add: bit_iff_odd)
qed

lemma get_int32_small:
  assumes "n < 2 ^ 31"
  shows "get_int32_as_size_t (of_nat n) = n"
proof -
  have b: "\<And>k. bit n k \<Longrightarrow> k < 31" using bit_nat_less [OF assms] .
  have "(scast (ucast (of_nat n :: 64 word) :: 32 word) :: 64 word) = of_nat n"
    by (rule bit_word_eqI) (auto simp: bit_simps min_def dest: b)
  moreover have "n < 2 ^ 64" using assms by (rule less_trans) simp
  ultimately show ?thesis
    by (simp add: get_int32_as_size_t_def unat_of_nat)
qed

lemma not_bit7: "n < 128 \<Longrightarrow> \<not> bit (of_nat n :: byte) 7"
  using bit_nat_less [of n 7 7] by (auto simp: bit_simps)

lemma scast_small: "\<not> bit c 7 \<Longrightarrow> (scast (c::byte) :: 32 word) = ucast c"
proof (rule bit_word_eqI)
  fix n assume "\<not> bit c 7" "n < LENGTH(32)"
  have "bit c n \<Longrightarrow> n < 7"
    using bit_imp_le_length [of c n] \<open>\<not> bit c 7\<close> by (cases "n = 7") auto
  then show "bit (scast c :: 32 word) n = bit (ucast c :: 32 word) n"
    using \<open>\<not> bit c 7\<close> by (auto simp: bit_simps min_def)
qed

lemma or_as_sum:
  fixes a b c d :: byte
  shows "(ucast d :: 32 word) OR push_bit 8 (ucast c) OR push_bit 16 (ucast b) OR push_bit 24 (ucast a)
      = of_nat (unat a * 2 ^ 24 + unat b * 2 ^ 16 + unat c * 2 ^ 8 + unat d)"
proof -
  let ?d = "ucast d :: 32 word" and ?c = "push_bit 8 (ucast c) :: 32 word"
    and ?b = "push_bit 16 (ucast b) :: 32 word" and ?a = "push_bit 24 (ucast a) :: 32 word"
  have ba: "?b + ?a = ?b OR ?a"
    by (rule disjunctive_add) (auto simp: bit_simps dest: bit_imp_le_length)
  have cba: "?c + (?b OR ?a) = ?c OR ?b OR ?a"
    by (rule disjunctive_add) (auto simp: bit_simps dest: bit_imp_le_length)
  have dcba: "?d + (?c OR ?b OR ?a) = ?d OR ?c OR ?b OR ?a"
    by (rule disjunctive_add) (auto simp: bit_simps dest: bit_imp_le_length)
  have "?d OR ?c OR ?b OR ?a = ?d + (?c + (?b + ?a))"
    by (simp only: ba cba dcba)
  also have "\<dots> = of_nat (unat a * 2 ^ 24 + unat b * 2 ^ 16 + unat c * 2 ^ 8 + unat d)"
    by (simp add: push_bit_eq_mult)
  finally show ?thesis .
qed

text \<open>
  Where plain \<open>char\<close> is unsigned, the length prefix is the big-endian value of its four
  bytes.
\<close>

lemma get_size_unsigned_char:
  "unat (get_size_in_network_byte_order False [a, b, c, d])
   = unat a * 2 ^ 24 + unat b * 2 ^ 16 + unat c * 2 ^ 8 + unat d"
proof -
  have "unat a < 256" "unat b < 256" "unat c < 256" "unat d < 256"
    using unsigned_less [of a] unsigned_less [of b] unsigned_less [of c] unsigned_less [of d]
    by simp_all
  then have "unat a * 2 ^ 24 + unat b * 2 ^ 16 + unat c * 2 ^ 8 + unat d < 2 ^ 32" by simp
  then have "unat (of_nat (unat a * 2 ^ 24 + unat b * 2 ^ 16 + unat c * 2 ^ 8 + unat d) :: 32 word)
      = unat a * 2 ^ 24 + unat b * 2 ^ 16 + unat c * 2 ^ 8 + unat d"
    by (simp only: unat_of_nat) simp
  moreover have "get_size_in_network_byte_order False [a, b, c, d]
      = of_nat (unat a * 2 ^ 24 + unat b * 2 ^ 16 + unat c * 2 ^ 8 + unat d)"
    unfolding get_size_in_network_byte_order_def char_to_uint32_def
    using or_as_sum [of d c b a] by simp
  ultimately show ?thesis by (simp only:)
qed

subsection \<open>Reading\<close>

lemma read_exactly_enough:
  assumes "fd_pos f + n \<le> length (fd_content f)"
  shows "read_exactly f n
         = (True, take n (drop (fd_pos f) (fd_content f)), f\<lparr>fd_pos := fd_pos f + n\<rparr>)"
proof (cases "n = 0")
  case True
  then show ?thesis by (simp add: read_exactly_def read_exactly_loop.simps)
next
  case False
  with assms have len: "length (fst (reliable_read f n)) = n"
    by (simp add: reliable_read_def Let_def)
  show ?thesis
    unfolding read_exactly_def
    apply (subst read_exactly_loop.simps)
    apply (subst read_exactly_loop.simps)
    using False len by (simp add: reliable_read_def Let_def)
qed


lemma strncmp_same: "strncmp s s = 0"
  by (induction s) auto

subsection \<open>Well-formed blocks\<close>

lemma length_be32 [simp]: "length (be32 n) = 4"
  by (simp add: be32_def)

lemma get_size_be32:
  assumes "n \<le> 64"
  shows "get_size_in_network_byte_order sg (be32 n) = of_nat n"
proof -
  have z: "n div 16777216 = 0" "n div 65536 = 0" "n div 256 = 0" using assms by simp_all
  have "\<not> bit (of_nat n :: byte) 7" using assms by (intro not_bit7) simp
  then have s: "(scast (of_nat n :: byte) :: 32 word) = ucast (of_nat n :: byte)"
    by (rule scast_small)
  have b: "\<And>k. bit n k \<Longrightarrow> k < 7" using bit_nat_less [of n 7] assms by simp
  have u: "(ucast (of_nat n :: byte) :: 32 word) = of_nat n"
    by (rule bit_word_eqI) (auto simp: bit_simps dest: b)
  show ?thesis
    by (simp add: get_size_in_network_byte_order_def be32_def z char_to_uint32_def s u)
qed

lemma blob_header_fields_last:
  "blob_header_fields fs ty ds
   = (last (ty # type_fields fs), last (ds # map get_int32_as_size_t (datasize_fields fs)))"
  by (induction fs ty ds rule: blob_header_fields.induct) auto

lemma decode_blob_header_declared:
  assumes "header_declares rd hdr ty n" "0 < n" "n < 2 ^ 31"
  shows "decode_blob_header rd hdr ty = Inr n"
proof -
  from assms(1) obtain fs where fs: "rd hdr = Some fs" "type_fields fs = [ty]"
      "datasize_fields fs = [of_nat n]"
    by (auto simp: header_declares_def split: option.splits)
  have "get_int32_as_size_t (of_nat n) = n" using assms(3) by (rule get_int32_small)
  then have "blob_header_fields fs [] 0 = (ty, n)"
    by (simp add: blob_header_fields_last fs)
  then show ?thesis using assms(2) fs(1)
    by (simp add: decode_blob_header_def strncmp_same)
qed

lemma read_size_well_formed:
  assumes hl: "hl \<le> 64"
    and c: "fd_content f = pre @ be32 hl @ rest"
    and p: "fd_pos f = length pre"
  shows "read_blob_header_size_from_file sg f = Inr (of_nat hl, f\<lparr>fd_pos := length pre + 4\<rparr>)"
proof -
  have r: "read_exactly f 4 = (True, be32 hl, f\<lparr>fd_pos := length pre + 4\<rparr>)"
    using read_exactly_enough [of f 4] c p by simp
  have "unat (of_nat hl :: 32 word) = hl" using hl by (simp add: unat_of_nat)
  then have "\<not> (of_nat hl :: 32 word) > 64"
    using hl by (simp add: word_less_nat_alt)
  then show ?thesis
    by (simp add: read_blob_header_size_from_file_def r get_size_be32 [OF hl]
        check_small_size_def max_small_blob_header_size_def)
qed

text \<open>
  A block whose length prefix and header are in the file, and whose header decodes to a
  size within the bound, is digested, whatever follows the header.
\<close>

lemma digest_decoded_in_file:
  assumes hl: "length hdr \<le> 64"
    and dec: "decode_blob_header rd hdr (if idx then OSMData else OSMHeader) = Inr n"
    and n: "n \<le> max_block_size"
    and c: "fd_content (m_fd this) = pre @ be32 (length hdr) @ hdr @ rest"
    and p: "fd_pos (m_fd this) = length pre"
  shows "digest_and_skip_block sg rd this off fsz idx =
     Inr (off + 4 + length hdr + n,
          \<lparr>m_block_starts =
             (if idx
              then m_block_starts this @
                     [\<lparr>file_offset = off + 4 + length hdr,
                       first_item_id_or_zero = 0,
                       datasize = of_nat n,
                       first_item_type_or_zero = item_type_undefined\<rparr>]
              else m_block_starts this),
           m_fd = (m_fd this)\<lparr>fd_pos := off + 4 + length hdr + n\<rparr>\<rparr>)"
proof -
  let ?hl = "length hdr"
  let ?f1 = "(m_fd this)\<lparr>fd_pos := length pre + 4\<rparr>"
  have s: "read_blob_header_size_from_file sg (m_fd this) = Inr (of_nat ?hl, ?f1)"
    using read_size_well_formed [OF hl c p] .
  have u: "unat (of_nat ?hl :: 32 word) = ?hl" using hl by (simp add: unat_of_nat)
  have r: "read_exactly ?f1 ?hl = (True, hdr, ?f1\<lparr>fd_pos := length pre + 4 + ?hl\<rparr>)"
    using read_exactly_enough [of ?f1 ?hl] c by simp
  show ?thesis
    using n by (simp add: digest_and_skip_block_def s u r dec Let_def file_seek_def)
qed


lemma well_formed_accepted:
  assumes "well_formed_block rd ty b"
  shows "accepted_block rd ty b"
proof -
  from assms have n: "0 < length (blob_body b)" "length (blob_body b) \<le> max_block_size"
    and d: "header_declares rd (blob_header b) ty (length (blob_body b))"
    and hl: "length (blob_header b) \<le> 64"
    by (simp_all add: well_formed_block_def)
  have "length (blob_body b) < 2 ^ 31" using n(2) by (simp add: max_block_size_def)
  then have "decode_blob_header rd (blob_header b) ty = Inr (length (blob_body b))"
    using decode_blob_header_declared [OF d n(1)] by simp
  with hl n(2) show ?thesis by (simp add: accepted_block_def)
qed

lemma digest_accepted:
  assumes ac: "accepted_block rd (if idx then OSMData else OSMHeader) b"
    and c: "fd_content (m_fd this) = pre @ block_bytes b @ rest"
    and p: "fd_pos (m_fd this) = length pre"
  shows "digest_and_skip_block sg rd this off fsz idx =
     Inr (off + length (block_bytes b),
          \<lparr>m_block_starts =
             (if idx
              then m_block_starts this @
                     [\<lparr>file_offset = off + 4 + length (blob_header b),
                       first_item_id_or_zero = 0,
                       datasize = of_nat (length (blob_body b)),
                       first_item_type_or_zero = item_type_undefined\<rparr>]
              else m_block_starts this),
           m_fd = (m_fd this)\<lparr>fd_pos := off + length (block_bytes b)\<rparr>\<rparr>)"
proof -
  from ac have hl: "length (blob_header b) \<le> 64"
    and n: "length (blob_body b) \<le> max_block_size"
    and d: "decode_blob_header rd (blob_header b) (if idx then OSMData else OSMHeader)
            = Inr (length (blob_body b))"
    by (simp_all add: accepted_block_def)
  have c': "fd_content (m_fd this)
            = pre @ be32 (length (blob_header b)) @ blob_header b @ (blob_body b @ rest)"
    using c by (simp add: block_bytes_def)
  show ?thesis
    using digest_decoded_in_file [OF hl d n c' p, of sg off fsz]
    by (simp add: block_bytes_def add.assoc)
qed


lemma container_bytes_simps [simp]:
  "container_bytes [] = []"
  "container_bytes (b # bs) = block_bytes b @ container_bytes bs"
  "container_bytes (as @ bs) = container_bytes as @ container_bytes bs"
  by (simp_all add: container_bytes_def)

lemma length_block_bytes:
  "length (block_bytes b) = 4 + length (blob_header b) + length (blob_body b)"
  by (simp add: block_bytes_def)

lemma index_data_blocks_accepted:
  assumes "\<forall>b\<in>set bs. accepted_block rd OSMData b"
    and "fd_content (m_fd this) = pre @ container_bytes bs"
    and "fd_pos (m_fd this) = length pre"
  shows "index_data_blocks sg rd this (length pre) (length pre + length (container_bytes bs))
         = Inr (length pre + length (container_bytes bs),
                \<lparr>m_block_starts = m_block_starts this @ block_start_entries (length pre) bs,
                 m_fd = (m_fd this)\<lparr>fd_pos := length pre + length (container_bytes bs)\<rparr>\<rparr>)"
  using assms
proof (induction bs arbitrary: this pre)
  case Nil
  then show ?case
    by (subst index_data_blocks.simps) simp
next
  case (Cons b bs)
  let ?this' = "\<lparr>m_block_starts = m_block_starts this @
                     [\<lparr>file_offset = length pre + 4 + length (blob_header b),
                       first_item_id_or_zero = 0,
                       datasize = of_nat (length (blob_body b)),
                       first_item_type_or_zero = item_type_undefined\<rparr>],
                 m_fd = (m_fd this)\<lparr>fd_pos := length pre + length (block_bytes b)\<rparr>\<rparr>"
  have wf: "accepted_block rd (if True then OSMData else OSMHeader) b"
    using Cons.prems(1) by simp
  have c: "fd_content (m_fd this) = pre @ block_bytes b @ container_bytes bs"
    using Cons.prems(2) by simp
  have d: "digest_and_skip_block sg rd this (length pre)
             (length pre + length (container_bytes (b # bs))) True
           = Inr (length pre + length (block_bytes b), ?this')"
    using digest_accepted [OF wf c Cons.prems(3)] by simp
  have ih: "index_data_blocks sg rd ?this' (length (pre @ block_bytes b))
              (length (pre @ block_bytes b) + length (container_bytes bs))
            = Inr (length (pre @ block_bytes b) + length (container_bytes bs),
                   \<lparr>m_block_starts = m_block_starts ?this'
                        @ block_start_entries (length (pre @ block_bytes b)) bs,
                    m_fd = (m_fd ?this')\<lparr>fd_pos := length (pre @ block_bytes b)
                                                     + length (container_bytes bs)\<rparr>\<rparr>)"
    by (rule Cons.IH) (use Cons.prems c in simp_all)
  have lt: "length pre < length pre + length (container_bytes (b # bs))"
    by (simp add: length_block_bytes)
  show ?case
    apply (subst index_data_blocks.simps)
    using lt d ih by (simp add: add.assoc)
qed

lemma index_data_blocks_well_formed:
  assumes "\<forall>b\<in>set bs. well_formed_block rd OSMData b"
    and "fd_content (m_fd this) = pre @ container_bytes bs"
    and "fd_pos (m_fd this) = length pre"
  shows "index_data_blocks sg rd this (length pre) (length pre + length (container_bytes bs))
         = Inr (length pre + length (container_bytes bs),
                \<lparr>m_block_starts = m_block_starts this @ block_start_entries (length pre) bs,
                 m_fd = (m_fd this)\<lparr>fd_pos := length pre + length (container_bytes bs)\<rparr>\<rparr>)"
proof -
  have "\<forall>b\<in>set bs. accepted_block rd OSMData b"
    using assms(1) by (simp add: well_formed_accepted)
  then show ?thesis using assms(2,3) by (rule index_data_blocks_accepted)
qed







text \<open>
  What \<open>strncmp\<close> bounded by the length of the header's type accepts: a type that is a
  prefix of the expected string (the empty type too), or one that continues the expected
  string with a zero byte.
\<close>

lemma strncmp_accepts:
  assumes "0 \<notin> set s1"
  shows "strncmp s1 s2 = 0 \<longleftrightarrow>
         s2 = take (length s2) s1 \<or> take (Suc (length s1)) s2 = s1 @ [0]"
  using assms
proof (induction s1 s2 rule: strncmp.induct)
  case (1 s1)
  then show ?case by simp
next
  case (2 c s2)
  then show ?case by (auto simp: uint_0_iff)
next
  case (3 a s1 c s2)
  then show ?case by (auto simp: word_uint_eq_iff)
qed

text \<open>Unfolding the definitions evaluates the constructor on a concrete file.\<close>

lemmas pbf_eval =
  new_PbfBlockIndexTable_def digest_and_skip_block_def read_blob_header_size_from_file_def
  read_exactly_def reliable_read_def open_for_reading_def file_size_def file_seek_def
  check_small_size_def max_small_blob_header_size_def max_block_size_def
  get_size_in_network_byte_order_def char_to_uint32_def
  decode_blob_header_def protobuf_reader_def blob_header_bytes_def bytes_of_def
  OSMHeader_def OSMData_def required_string_type_def required_int32_datasize_def
  get_int32_as_size_t_def container_bytes_def block_bytes_def be32_def block_starts_def Let_def
  read_exactly_loop.simps index_data_blocks.simps

subsection \<open>Any file: what a successful construction has indexed\<close>

lemma read_size_bound:
  assumes "read_blob_header_size_from_file sg f = Inr (sz, f')"
  shows "unat sz \<le> 64"
  using assms
  by (auto simp: read_blob_header_size_from_file_def check_small_size_def
      max_small_blob_header_size_def word_less_nat_alt
      split: prod.splits bool.splits sum.splits if_splits)

lemma digest_step:
  assumes "digest_and_skip_block sg rd this off fsz idx = Inr (off', this')"
  shows "\<exists>h n. h \<le> 64 \<and> 0 < n \<and> n \<le> max_block_size \<and> off' = off + 4 + h + n \<and>
           m_block_starts this'
           = (if idx then m_block_starts this @
                  [\<lparr>file_offset = off + 4 + h, first_item_id_or_zero = 0,
                    datasize = of_nat n, first_item_type_or_zero = item_type_undefined\<rparr>]
              else m_block_starts this)"
  using assms
  by (auto simp: digest_and_skip_block_def Let_def
      split: sum.splits prod.splits bool.splits if_splits
      dest!: read_size_bound decode_blob_header_pos)

























lemmas ex_eval =
  well_formed_block_def header_declares_def ex_header_def ex_data_def ex_oversize_header_def


subsection \<open>Decoding blocks\<close>

lemma get_parsed_block_length:
  "length (m_block_starts (snd (get_parsed_block dec this i m))) = length (m_block_starts this)"
  by (simp add: get_parsed_block_def Let_def split: prod.splits bool.splits option.splits)

lemma get_parsed_block_offsets:
  "file_offset (m_block_starts (snd (get_parsed_block dec this i m)) ! k)
     = file_offset (m_block_starts this ! k) \<and>
   datasize (m_block_starts (snd (get_parsed_block dec this i m)) ! k)
     = datasize (m_block_starts this ! k)"
  by (cases "k = i")
     (auto simp: get_parsed_block_def Let_def split: prod.splits bool.splits option.splits list.splits)

lemma get_parsed_block_resolved:
  "first_item_type_or_zero (m_block_starts this ! k) \<noteq> item_type_undefined
   \<Longrightarrow> m_block_starts (snd (get_parsed_block dec this i m)) ! k = m_block_starts this ! k"
  by (cases "k = i")
     (auto simp: get_parsed_block_def Let_def split: prod.splits bool.splits option.splits list.splits)

lemma get_parsed_block_unresolved:
  assumes "k < length (m_block_starts this)"
    and "first_item_type_or_zero (m_block_starts this ! k) = item_type_undefined"
  shows "m_block_starts (snd (get_parsed_block dec this i m)) ! k
         = (case fst (get_parsed_block dec this i m) of
              Inr (ob # rest) \<Rightarrow>
                if i = k
                then (m_block_starts this ! k)\<lparr>first_item_id_or_zero := object_id ob,
                                                first_item_type_or_zero := object_type ob\<rparr>
                else m_block_starts this ! k
            | _ \<Rightarrow> m_block_starts this ! k)"
  using assms
  by (cases "k = i")
     (auto simp: get_parsed_block_def Let_def split: prod.splits bool.splits option.splits list.splits)

lemma get_parsed_block_decoded:
  assumes "fst (get_parsed_block dec this i m) = Inr buf"
  shows "\<exists>input. dec input osm_entity_bits_all m = Some buf"
  using assms
  by (auto simp: get_parsed_block_def Let_def split: prod.splits bool.splits option.splits if_splits)

lemma get_parsed_blocks_length:
  "length (m_block_starts (get_parsed_blocks dec this calls)) = length (m_block_starts this)"
  by (induction dec this calls rule: get_parsed_blocks.induct) (simp_all add: get_parsed_block_length)

lemma get_parsed_blocks_offsets:
  "file_offset (m_block_starts (get_parsed_blocks dec this calls) ! k)
     = file_offset (m_block_starts this ! k) \<and>
   datasize (m_block_starts (get_parsed_blocks dec this calls) ! k)
     = datasize (m_block_starts this ! k)"
  by (induction dec this calls rule: get_parsed_blocks.induct) (simp_all add: get_parsed_block_offsets)

lemma get_parsed_blocks_resolved:
  "first_item_type_or_zero (m_block_starts this ! k) \<noteq> item_type_undefined
   \<Longrightarrow> m_block_starts (get_parsed_blocks dec this calls) ! k = m_block_starts this ! k"
  by (induction dec this calls rule: get_parsed_blocks.induct) (simp_all add: get_parsed_block_resolved)


lemma index_data_blocks_unknown:
  "index_data_blocks sg rd this off fsz = Inr (off', this')
   \<Longrightarrow> list_all unknown_first_item (m_block_starts this)
   \<Longrightarrow> list_all unknown_first_item (m_block_starts this')"
proof (induction sg rd this off fsz rule: index_data_blocks.induct)
  case (1 sg rd this off fsz)
  show ?case
  proof (cases "off < fsz")
    case False
    with "1.prems" show ?thesis
      by (subst (asm) index_data_blocks.simps) auto
  next
    case True
    with "1.prems" obtain off1 this1 where
      d: "digest_and_skip_block sg rd this off fsz True = Inr (off1, this1)"
      and r: "index_data_blocks sg rd this1 off1 fsz = Inr (off', this')"
      by (subst (asm) index_data_blocks.simps) (auto split: sum.splits)
    from digest_step [OF d] obtain h n where
      s1: "m_block_starts this1 = m_block_starts this @
                  [\<lparr>file_offset = off + 4 + h, first_item_id_or_zero = 0,
                    datasize = of_nat n, first_item_type_or_zero = item_type_undefined\<rparr>]"
      by auto
    have "unknown_first_item \<lparr>file_offset = off + 4 + h, first_item_id_or_zero = 0,
                    datasize = of_nat n, first_item_type_or_zero = item_type_undefined\<rparr>"
      by (simp add: unknown_first_item_def)
    with s1 "1.prems"(2) have "list_all unknown_first_item (m_block_starts this1)"
      by simp
    with "1.IH" [OF True d refl r] show ?thesis .
  qed
qed

lemma new_PbfBlockIndexTable_unknown:
  assumes "new_PbfBlockIndexTable sg rd file = Inr t"
  shows "list_all unknown_first_item (block_starts t)"
proof -
  let ?f = "open_for_reading file"
  from assms obtain off0 this0 off1 where
    d: "digest_and_skip_block sg rd \<lparr>m_block_starts = [], m_fd = ?f\<rparr> 0 (length file) False
        = Inr (off0, this0)"
    and l: "index_data_blocks sg rd this0 off0 (length file) = Inr (off1, t)"
    by (auto simp: new_PbfBlockIndexTable_def Let_def file_size_def open_for_reading_def
        split: sum.splits if_splits)
  from digest_step [OF d] have "m_block_starts this0 = []" by auto
  with index_data_blocks_unknown [OF l] show ?thesis by (simp add: block_starts_def)
qed


lemmas table_eval =
  get_parsed_block_def ex_table_def ex_decoder_def ex_decoder_any_def osm_entity_bits_all_def


section \<open>Facts about the builders\<close>

lemma copy_n_simps [simp]:
  "m_data (copy_n src target buffer) a
   = (if target \<le> a \<and> a < target + length src then src ! (a - target) else m_data buffer a)"
  "m_written (copy_n src target buffer) = m_written buffer"
  "m_committed (copy_n src target buffer) = m_committed buffer"
  by (simp_all add: copy_n_def)

lemma fill_n_simps [simp]:
  "m_data (fill_n target n v buffer) a
   = (if target \<le> a \<and> a < target + n then v else m_data buffer a)"
  "m_written (fill_n target n v buffer) = m_written buffer"
  "m_committed (fill_n target n v buffer) = m_committed buffer"
  by (auto simp: fill_n_def)

lemma placement_new_simps [simp]:
  "m_data (placement_new addr sz repr buffer) a
   = (if addr \<le> a \<and> a < addr + sz then repr (a - addr) else m_data buffer a)"
  "m_written (placement_new addr sz repr buffer) = m_written buffer"
  "m_committed (placement_new addr sz repr buffer) = m_committed buffer"
  by (auto simp: placement_new_def)

lemma word_cat_bytes16: "word_cat (ucast (drop_bit 8 v) :: byte) (ucast v :: byte) = (v :: 16 word)"
  by (rule bit_word_eqI) (auto simp: bit_simps)

lemma word_cat_bytes32:
  "word_cat (word_cat (ucast (drop_bit 24 v) :: byte) (ucast (drop_bit 16 v) :: byte) :: 16 word)
            (word_cat (ucast (drop_bit 8 v) :: byte) (ucast v :: byte) :: 16 word) = (v :: 32 word)"
  by (rule bit_word_eqI) (auto simp: bit_simps)

lemma put_uint16_simps [simp]:
  "m_written (put_uint16 addr v buffer) = m_written buffer"
  "m_committed (put_uint16 addr v buffer) = m_committed buffer"
  "get_uint16 (put_uint16 addr v buffer) addr = v"
  by (simp_all add: put_uint16_def get_uint16_def word_cat_bytes16)

lemma put_uint16_data:
  "m_data (put_uint16 addr v buffer) a
   = (if addr \<le> a \<and> a < addr + 2 then [ucast v, ucast (drop_bit 8 v)] ! (a - addr)
      else m_data buffer a)"
  by (simp add: put_uint16_def)

lemma put_uint16_other [simp]:
  "a < addr \<or> addr + 2 \<le> a \<Longrightarrow> m_data (put_uint16 addr v buffer) a = m_data buffer a"
  by (auto simp: put_uint16_def)

lemma put_uint32_simps [simp]:
  "m_written (put_uint32 addr v buffer) = m_written buffer"
  "m_committed (put_uint32 addr v buffer) = m_committed buffer"
  "get_uint32 (put_uint32 addr v buffer) addr = v"
  by (simp_all add: put_uint32_def get_uint32_def word_cat_bytes32)

lemma put_uint32_other [simp]:
  "a < addr \<or> addr + 4 \<le> a \<Longrightarrow> m_data (put_uint32 addr v buffer) a = m_data buffer a"
  by (auto simp: put_uint32_def)

lemma get_uint16_cong:
  "m_data b' addr = m_data b addr \<Longrightarrow> m_data b' (addr + 1) = m_data b (addr + 1)
   \<Longrightarrow> get_uint16 b' addr = get_uint16 b addr"
  by (simp add: get_uint16_def)

lemma get_uint32_cong:
  "(\<And>a. addr \<le> a \<Longrightarrow> a < addr + 4 \<Longrightarrow> m_data b' a = m_data b a)
   \<Longrightarrow> get_uint32 b' addr = get_uint32 b addr"
  by (simp add: get_uint32_def)

lemma Item_add_size_simps [simp]:
  "m_written (Item_add_size addr n buffer) = m_written buffer"
  "m_committed (Item_add_size addr n buffer) = m_committed buffer"
  "a < addr \<or> addr + 4 \<le> a \<Longrightarrow> m_data (Item_add_size addr n buffer) a = m_data buffer a"
  "get_uint32 (Item_add_size addr n buffer) addr = get_uint32 buffer addr + n"
  by (simp_all add: Item_add_size_def)

lemma add_size_simps [simp]:
  "m_written (add_size this n buffer) = m_written buffer"
  "m_committed (add_size this n buffer) = m_committed buffer"
  by (induction this n buffer rule: add_size.induct) simp_all

lemma add_size_frame:
  "a \<notin> size_field_addrs this (m_committed buffer)
   \<Longrightarrow> m_data (add_size this n buffer) a = m_data buffer a"
  by (induction this n buffer rule: add_size.induct) auto


lemma reserve_space_simps [simp]:
  "fst (reserve_space buffer n) = m_written buffer"
  "m_data (snd (reserve_space buffer n)) = m_data buffer"
  "m_written (snd (reserve_space buffer n)) = m_written buffer + n"
  "m_committed (snd (reserve_space buffer n)) = m_committed buffer"
  by (simp_all add: reserve_space_def Buffer_reserve_space_def)

lemma min_size_for_user_8 [simp]: "min_size_for_user = 8"
  by (simp add: min_size_for_user_def padded_length_def align_bytes_def sizeof_string_size_type_def)

lemma changeset_min_size_for_user_8 [simp]: "changeset_min_size_for_user = 8"
  by (simp add: changeset_min_size_for_user_def padded_length_def align_bytes_def)

lemma item_pos_simps [simp]:
  "item_pos this (copy_n src target buffer) = item_pos this buffer"
  "item_pos this (fill_n target n v buffer) = item_pos this buffer"
  "item_pos this (placement_new addr sz repr buffer) = item_pos this buffer"
  "item_pos this (put_uint16 addr v16 buffer) = item_pos this buffer"
  "item_pos this (put_uint32 addr v32 buffer) = item_pos this buffer"
  "item_pos this (add_size that n32 buffer) = item_pos this buffer"
  "item_pos this (snd (reserve_space buffer k)) = item_pos this buffer"
  by (simp_all add: item_pos_def)

lemma bytes_at_eq_replicate:
  "(\<And>a. addr \<le> a \<Longrightarrow> a < addr + n \<Longrightarrow> m_data buffer a = v)
   \<Longrightarrow> bytes_at buffer addr n = replicate n v"
  by (auto simp: bytes_at_def list_eq_iff_nth_eq)

lemma new_OSMObjectBuilder_slot:
  assumes "new_OSMObjectBuilder sizeof_T T_repr buffer parent = (this, b)"
  shows "OSMObject_user_size sizeof_T b (item_pos this b) = 1"
    and "bytes_at b (item_pos this b + sizeof_T + sizeof_string_size_type) 6 = replicate 6 0"
    and "m_written b = m_written buffer + (sizeof_T + 8)"
    and "m_committed b = m_committed buffer"
    and "m_committed buffer \<le> m_written buffer \<Longrightarrow> item_pos this b = m_written buffer"
proof -
  let ?bld = "Builder (m_written buffer - m_committed buffer) parent"
  have t: "this = ?bld"
    using assms by (auto simp: new_OSMObjectBuilder_def new_Builder_def Let_def)
  let ?item = "m_committed buffer + (m_written buffer - m_committed buffer)"
  have b: "\<exists>b4. b = OSMObject_set_user_size sizeof_T ?item 1 (fill_n (?item + sizeof_T) 8 0 b4)
               \<and> m_written b4 = m_written buffer + (sizeof_T + 8)
               \<and> m_committed b4 = m_committed buffer"
    using assms
    by (auto simp: new_OSMObjectBuilder_def new_Builder_def Let_def placement_new_Item_def
        item_pos_def split: option.splits)
  then obtain b4 where b4: "b = OSMObject_set_user_size sizeof_T ?item 1 (fill_n (?item + sizeof_T) 8 0 b4)"
    "m_written b4 = m_written buffer + (sizeof_T + 8)" "m_committed b4 = m_committed buffer"
    by blast
  have c: "m_committed b = m_committed buffer"
    by (simp add: b4 OSMObject_set_user_size_def)
  have ip: "item_pos this b = ?item"
    by (simp add: item_pos_def c t)
  show "OSMObject_user_size sizeof_T b (item_pos this b) = 1"
    unfolding ip by (simp add: b4 OSMObject_user_size_def OSMObject_set_user_size_def)
  show "bytes_at b (item_pos this b + sizeof_T + sizeof_string_size_type) 6 = replicate 6 0"
    unfolding ip
    by (rule bytes_at_eq_replicate)
       (simp add: b4 OSMObject_set_user_size_def sizeof_string_size_type_def)
  show "m_written b = m_written buffer + (sizeof_T + 8)"
    by (simp add: b4 OSMObject_set_user_size_def)
  show "m_committed b = m_committed buffer" by (rule c)
  show "m_committed buffer \<le> m_written buffer \<Longrightarrow> item_pos this b = m_written buffer"
    unfolding ip by simp
qed

lemma unat_of_nat_le: "unat (of_nat n :: 'a::len word) \<le> n"
  by (simp add: unat_of_nat)

lemma unat_of_nat_add_le: "unat (of_nat n + of_nat k :: 'a::len word) \<le> n + k"
  using unat_of_nat_le [of "n + k", where 'a = 'a] by simp

lemma add_size_own_field:
  assumes "parent_fields_before this buffer"
  shows "get_uint32 (add_size this n buffer) (item_pos this buffer)
         = get_uint32 buffer (item_pos this buffer) + n"
proof (cases this)
  case (Builder off parent)
  show ?thesis
  proof (cases parent)
    case None
    with Builder show ?thesis by (simp add: item_pos_def)
  next
    case (Some p)
    let ?i = "m_committed buffer + off"
    have d: "\<And>a. ?i \<le> a \<Longrightarrow> a < ?i + 4 \<Longrightarrow> a \<notin> size_field_addrs p (m_committed buffer)"
      using assms Builder Some by (auto simp: parent_fields_before_def item_pos_def)
    have "get_uint32 (add_size p n (Item_add_size ?i n buffer)) ?i
          = get_uint32 (Item_add_size ?i n buffer) ?i"
      by (rule get_uint32_cong) (simp add: add_size_frame d)
    with Builder Some show ?thesis by (simp add: item_pos_def)
  qed
qed

lemma add_size_above:
  assumes "parent_fields_before this buffer" "item_pos this buffer + 4 \<le> a"
  shows "m_data (add_size this n buffer) a = m_data buffer a"
proof (cases this)
  case (Builder off parent)
  show ?thesis
  proof (cases parent)
    case None
    with Builder assms(2) show ?thesis by (simp add: item_pos_def)
  next
    case (Some p)
    let ?i = "m_committed buffer + off"
    have "a \<notin> size_field_addrs p (m_committed buffer)"
      using assms Builder Some by (auto simp: parent_fields_before_def item_pos_def)
    then have "m_data (add_size p n (Item_add_size ?i n buffer)) a
               = m_data (Item_add_size ?i n buffer) a"
      by (simp add: add_size_frame)
    with Builder Some assms(2) show ?thesis by (simp add: item_pos_def)
  qed
qed

lemma padded_length_ge: "n \<le> padded_length n"
proof -
  have "n \<le> (n + 7) div 8 * 8" by presburger
  then show ?thesis by (simp add: padded_length_def align_bytes_def)
qed

lemma padded_length_1 [simp]: "padded_length 1 = 8" "padded_length (Suc 0) = 8"
  by (simp_all add: padded_length_def align_bytes_def)

lemma bytes_at_replicate_nth:
  assumes "bytes_at buffer addr n = replicate n v" "addr \<le> a" "a < addr + n"
  shows "m_data buffer a = v"
proof -
  have "bytes_at buffer addr n ! (a - addr) = m_data buffer a"
    using assms(2,3) by (simp add: bytes_at_def)
  with assms show ?thesis by simp
qed

lemma bytes_at_eq_list:
  "length xs = n \<Longrightarrow> (\<And>a. addr \<le> a \<Longrightarrow> a < addr + n \<Longrightarrow> m_data buffer a = xs ! (a - addr))
   \<Longrightarrow> bytes_at buffer addr n = xs"
  by (auto simp: bytes_at_def list_eq_iff_nth_eq)

lemma parent_fields_before_cong:
  "m_committed b' = m_committed b \<Longrightarrow> parent_fields_before this b' = parent_fields_before this b"
  by (simp add: parent_fields_before_def item_pos_def split: option.splits)

lemma OSMObjectBuilder_set_user_unset:
  assumes u: "user_unset sizeof_T this b"
    and l: "length user = unat len" "unat len \<le> max_osm_string_length"
  shows "\<exists>b'. OSMObjectBuilder_set_user sizeof_T this user len b = Done b' \<and>
           OSMObject_user_size sizeof_T b' (item_pos this b') = len + 1 \<and>
           unat (OSMObject_user_size sizeof_T b' (item_pos this b')) = length user + 1 \<and>
           OSMObject_user sizeof_T b' (item_pos this b') = user \<and>
           m_written b' = m_written b + (if unat len > 5 then padded_length (unat len - 5) else 0) \<and>
           item_pos this b' + sizeof_T + sizeof_string_size_type + length user < m_written b' \<and>
           (\<forall>a. item_pos this b' + sizeof_T + sizeof_string_size_type + length user \<le> a
                \<and> a < m_written b' \<longrightarrow> m_data b' a = 0)"
proof -
  let ?item = "item_pos this b"
  let ?name = "?item + sizeof_T + 2"
  let ?n = "unat len"
  from u have us: "OSMObject_user_size sizeof_T b ?item = 1"
    and sz: "unat (Builder_size this b) \<le> sizeof_T + 8"
    and slot: "bytes_at b ?name 6 = replicate 6 0"
    and w: "m_written b = ?item + sizeof_T + 8"
    and s4: "4 \<le> sizeof_T"
    and pf: "parent_fields_before this b"
    by (simp_all add: user_unset_def sizeof_string_size_type_def)
  have zero: "\<And>a. ?name \<le> a \<Longrightarrow> a < ?name + 6 \<Longrightarrow> m_data b a = 0"
    using bytes_at_replicate_nth [OF slot] by simp
  have n16: "?n + 1 < 2 ^ 16" using l(2) by (simp add: max_osm_string_length_def)
  then have len1: "of_nat (?n + 1) = len + 1" "unat (len + 1) = ?n + 1"
    by (simp_all add: unat_word_ariths)
  define space where "space = (if ?n > 5 then padded_length (?n - 5) else 0)"
  define b1 where "b1 = (if ?n > 5
      then add_size this (of_nat (padded_length (?n - 5)))
             (fill_n (m_written b) (padded_length (?n - 5)) 0
                (snd (reserve_space b (padded_length (?n - 5)))))
      else b)"
  define b2 where "b2 = copy_n (take ?n user) ?name b1"
  define b3 where "b3 = OSMObject_set_user_size sizeof_T ?item (len + 1) b2"
  have c1: "m_committed b1 = m_committed b" by (simp add: b1_def)
  have i1: "item_pos this b1 = ?item" by (simp add: item_pos_def c1)
  have w1: "m_written b1 = m_written b + space" by (simp add: b1_def space_def)
  have d1: "\<And>a. ?item + 4 \<le> a \<Longrightarrow> m_data b1 a
              = (if m_written b \<le> a \<and> a < m_written b + space then 0 else m_data b a)"
  proof -
    fix a assume a: "?item + 4 \<le> a"
    show "m_data b1 a = (if m_written b \<le> a \<and> a < m_written b + space then 0 else m_data b a)"
    proof (cases "?n > 5")
      case False
      then show ?thesis by (auto simp: b1_def space_def)
    next
      case True
      let ?bb = "fill_n (m_written b) (padded_length (?n - 5)) 0
                (snd (reserve_space b (padded_length (?n - 5))))"
      have "parent_fields_before this ?bb"
        using pf by (simp add: parent_fields_before_cong [of ?bb b])
      moreover have "item_pos this ?bb + 4 \<le> a" using a by simp
      ultimately have "m_data (add_size this (of_nat (padded_length (?n - 5))) ?bb) a = m_data ?bb a"
        by (rule add_size_above)
      with True show ?thesis by (simp add: b1_def space_def)
    qed
  qed
  have r: "OSMObjectBuilder_set_user sizeof_T this user len b = Done b3"
    using us sz
    by (simp add: OSMObjectBuilder_set_user_def Let_def sizeof_string_size_type_def
        b3_def b2_def b1_def len1 case_prod_beta add.commute)
  have c3: "m_committed b3 = m_committed b"
    by (simp add: b3_def b2_def c1 OSMObject_set_user_size_def)
  have i3: "item_pos this b3 = ?item" by (simp add: item_pos_def c3)
  have w3: "m_written b3 = m_written b + space"
    by (simp add: b3_def b2_def w1 OSMObject_set_user_size_def)
  have us3: "OSMObject_user_size sizeof_T b3 ?item = len + 1"
    by (simp add: b3_def OSMObject_user_size_def OSMObject_set_user_size_def)
  have d3: "\<And>a. ?name \<le> a \<Longrightarrow> m_data b3 a
              = (if a < ?name + ?n then user ! (a - ?name) else m_data b1 a)"
    using l(1) by (simp add: b3_def b2_def OSMObject_set_user_size_def)
  have nm: "OSMObject_user sizeof_T b3 ?item = user"
    unfolding OSMObject_user_def us3 len1
    by (rule bytes_at_eq_list) (use l(1) d3 in \<open>simp_all add: sizeof_string_size_type_def\<close>)
  have room: "?name + ?n < m_written b + space"
  proof (cases "?n > 5")
    case True
    then have "?n - 5 \<le> space" using padded_length_ge [of "?n - 5"] by (simp add: space_def)
    with True w show ?thesis by simp
  next
    case False
    with w show ?thesis by (simp add: space_def)
  qed
  have z: "\<forall>a. ?name + ?n \<le> a \<and> a < m_written b + space \<longrightarrow> m_data b3 a = 0"
  proof (intro allI impI)
    fix a assume a: "?name + ?n \<le> a \<and> a < m_written b + space"
    then have "m_data b3 a = m_data b1 a" using d3 [of a] by simp
    also have "\<dots> = (if m_written b \<le> a \<and> a < m_written b + space then 0 else m_data b a)"
      using a s4 by (intro d1) simp
    also have "\<dots> = 0" using a w zero [of a] by auto
    finally show "m_data b3 a = 0" .
  qed
  show ?thesis
    using r us3 nm w3 room z l(1) len1
    by (auto simp: i3 space_def sizeof_string_size_type_def)
qed

lemma new_Builder_simps:
  "fst (new_Builder buffer parent sz) = Builder (m_written buffer - m_committed buffer) parent"
  "m_written (snd (new_Builder buffer parent sz)) = m_written buffer + sz"
  "m_committed (snd (new_Builder buffer parent sz)) = m_committed buffer"
  by (simp_all add: new_Builder_def Let_def split: option.splits)

lemma placement_new_Item_simps [simp]:
  "m_written (placement_new_Item addr sz repr buffer) = m_written buffer"
  "m_committed (placement_new_Item addr sz repr buffer) = m_committed buffer"
  "get_uint32 (placement_new_Item addr sz repr buffer) addr = of_nat sz"
  by (simp_all add: placement_new_Item_def)

lemma new_OSMObjectBuilder_unset:
  assumes n: "new_OSMObjectBuilder sizeof_T T_repr buffer parent = (this, b)"
    and c: "m_committed buffer \<le> m_written buffer"
    and s4: "4 \<le> sizeof_T"
    and a: "ancestors_written parent buffer"
  shows "user_unset sizeof_T this b"
proof -
  let ?bld = "Builder (m_written buffer - m_committed buffer) parent"
  let ?item = "m_written buffer"
  let ?b1 = "snd (new_Builder buffer parent (sizeof_T + min_size_for_user))"
  let ?b2 = "placement_new_Item ?item sizeof_T T_repr ?b1"
  let ?b3 = "add_size ?bld (of_nat min_size_for_user) ?b2"
  let ?b4 = "fill_n (?item + sizeof_T) min_size_for_user 0 ?b3"
  have ip: "\<And>x. m_committed x = m_committed buffer \<Longrightarrow> item_pos ?bld x = ?item"
    using c by (simp add: item_pos_def)
  have t: "this = ?bld" and b: "b = OSMObject_set_user_size sizeof_T ?item 1 ?b4"
    using n by (auto simp: new_OSMObjectBuilder_def case_prod_beta Let_def new_Builder_simps ip)
  have cb: "m_committed b = m_committed buffer"
    by (simp add: b OSMObject_set_user_size_def new_Builder_simps)
  have ipb: "item_pos this b = ?item" unfolding t by (rule ip) (rule cb)
  have pf: "\<And>x. m_committed x = m_committed buffer \<Longrightarrow> parent_fields_before ?bld x"
    using a c by (simp add: parent_fields_before_def ancestors_written_def item_pos_def
        split: option.splits)
  have "get_uint32 ?b3 (item_pos ?bld ?b2) = get_uint32 ?b2 (item_pos ?bld ?b2) + of_nat min_size_for_user"
    by (rule add_size_own_field) (simp add: pf new_Builder_simps)
  then have g3: "get_uint32 ?b3 ?item = of_nat sizeof_T + of_nat min_size_for_user"
    by (simp add: ip new_Builder_simps)
  have "get_uint32 b ?item = get_uint32 ?b3 ?item"
    by (rule get_uint32_cong) (use s4 in \<open>simp add: b OSMObject_set_user_size_def\<close>)
  with g3 have sz: "unat (Builder_size this b) \<le> sizeof_T + min_size_for_user"
    using unat_of_nat_add_le [of sizeof_T min_size_for_user, where 'a = 32]
    by (simp add: Builder_size_def Item_byte_size_def ipb)
  have slot: "bytes_at b (?item + sizeof_T + sizeof_string_size_type)
                (min_size_for_user - sizeof_string_size_type)
              = replicate (min_size_for_user - sizeof_string_size_type) 0"
    by (rule bytes_at_eq_replicate)
       (simp add: b OSMObject_set_user_size_def sizeof_string_size_type_def)
  have w: "m_written b = ?item + sizeof_T + min_size_for_user"
    by (simp add: b OSMObject_set_user_size_def new_Builder_simps)
  have us: "OSMObject_user_size sizeof_T b ?item = 1"
    by (simp add: b OSMObject_user_size_def OSMObject_set_user_size_def)
  show ?thesis
    unfolding user_unset_def ipb
    using us sz slot w s4 pf [OF cb] t by simp
qed

lemma new_ChangesetBuilder_unset:
  assumes n: "new_ChangesetBuilder L buffer parent = (this, b)"
    and c: "m_committed buffer \<le> m_written buffer"
    and o: "4 \<le> changeset_user_size_offset L"
        "changeset_user_size_offset L + 2 \<le> sizeof_Changeset L"
    and a: "ancestors_written parent buffer"
  shows "changeset_user_unset L this b"
proof -
  let ?S = "sizeof_Changeset L"
  let ?bld = "Builder (m_written buffer - m_committed buffer) parent"
  let ?item = "m_written buffer"
  let ?b1 = "snd (new_Builder buffer parent (?S + changeset_min_size_for_user))"
  let ?b2 = "placement_new_Item ?item ?S (Changeset_repr L) ?b1"
  let ?b3 = "add_size ?bld (of_nat changeset_min_size_for_user) ?b2"
  let ?b4 = "fill_n (?item + ?S) changeset_min_size_for_user 0 ?b3"
  have ip: "\<And>x. m_committed x = m_committed buffer \<Longrightarrow> item_pos ?bld x = ?item"
    using c by (simp add: item_pos_def)
  have t: "this = ?bld" and b: "b = Changeset_set_user_size L ?item 1 ?b4"
    using n by (auto simp: new_ChangesetBuilder_def case_prod_beta Let_def new_Builder_simps ip)
  have cb: "m_committed b = m_committed buffer"
    by (simp add: b Changeset_set_user_size_def new_Builder_simps)
  have ipb: "item_pos this b = ?item" unfolding t by (rule ip) (rule cb)
  have pf: "\<And>x. m_committed x = m_committed buffer \<Longrightarrow> parent_fields_before ?bld x"
    using a c by (simp add: parent_fields_before_def ancestors_written_def item_pos_def
        split: option.splits)
  have "get_uint32 ?b3 (item_pos ?bld ?b2)
        = get_uint32 ?b2 (item_pos ?bld ?b2) + of_nat changeset_min_size_for_user"
    by (rule add_size_own_field) (simp add: pf new_Builder_simps)
  then have g3: "get_uint32 ?b3 ?item = of_nat ?S + of_nat changeset_min_size_for_user"
    by (simp add: ip new_Builder_simps)
  have "get_uint32 b ?item = get_uint32 ?b3 ?item"
    by (rule get_uint32_cong) (use o in \<open>simp add: b Changeset_set_user_size_def\<close>)
  with g3 have sz: "unat (Builder_size this b) \<le> ?S + changeset_min_size_for_user"
    using unat_of_nat_add_le [of ?S changeset_min_size_for_user, where 'a = 32]
    by (simp add: Builder_size_def Item_byte_size_def ipb)
  have slot: "bytes_at b (?item + ?S) changeset_min_size_for_user
              = replicate changeset_min_size_for_user 0"
    by (rule bytes_at_eq_replicate) (use o in \<open>simp add: b Changeset_set_user_size_def\<close>)
  have w: "m_written b = ?item + ?S + changeset_min_size_for_user"
    by (simp add: b Changeset_set_user_size_def new_Builder_simps)
  have us: "Changeset_user_size L b ?item = 1"
    by (simp add: b Changeset_user_size_def Changeset_set_user_size_def)
  show ?thesis
    unfolding changeset_user_unset_def ipb
    using us sz slot w o pf [OF cb] t by simp
qed

lemma ChangesetBuilder_set_user_unset:
  assumes u: "changeset_user_unset L this b"
    and l: "length user = unat len" "unat len \<le> max_osm_string_length"
  shows "\<exists>b'. ChangesetBuilder_set_user L this user len b = Done b' \<and>
           Changeset_user_size L b' (item_pos this b') = len + 1 \<and>
           unat (Changeset_user_size L b' (item_pos this b')) = length user + 1 \<and>
           Changeset_user L b' (item_pos this b') = user \<and>
           m_written b' = m_written b + (if unat len > 7 then padded_length (unat len - 7) else 0) \<and>
           item_pos this b' + sizeof_Changeset L + length user < m_written b' \<and>
           (\<forall>a. item_pos this b' + sizeof_Changeset L + length user \<le> a
                \<and> a < m_written b' \<longrightarrow> m_data b' a = 0)"
proof -
  let ?S = "sizeof_Changeset L"
  let ?item = "item_pos this b"
  let ?name = "?item + ?S"
  let ?n = "unat len"
  from u have us: "Changeset_user_size L b ?item = 1"
    and sz: "unat (Builder_size this b) \<le> ?S + 8"
    and slot: "bytes_at b ?name 8 = replicate 8 0"
    and w: "m_written b = ?item + ?S + 8"
    and o: "4 \<le> changeset_user_size_offset L" "changeset_user_size_offset L + 2 \<le> ?S"
    and pf: "parent_fields_before this b"
    by (simp_all add: changeset_user_unset_def)
  have zero: "\<And>a. ?name \<le> a \<Longrightarrow> a < ?name + 8 \<Longrightarrow> m_data b a = 0"
    using bytes_at_replicate_nth [OF slot] by simp
  have n16: "?n + 1 < 2 ^ 16" using l(2) by (simp add: max_osm_string_length_def)
  then have len1: "of_nat (?n + 1) = len + 1" "unat (len + 1) = ?n + 1"
    by (simp_all add: unat_word_ariths)
  define space where "space = (if ?n > 7 then padded_length (?n - 7) else 0)"
  define b1 where "b1 = (if ?n > 7
      then add_size this (of_nat (padded_length (?n - 7)))
             (fill_n (m_written b) (padded_length (?n - 7)) 0
                (snd (reserve_space b (padded_length (?n - 7)))))
      else b)"
  define b2 where "b2 = copy_n (take ?n user) ?name b1"
  define b3 where "b3 = Changeset_set_user_size L ?item (len + 1) b2"
  have c1: "m_committed b1 = m_committed b" by (simp add: b1_def)
  have i1: "item_pos this b1 = ?item" by (simp add: item_pos_def c1)
  have w1: "m_written b1 = m_written b + space" by (simp add: b1_def space_def)
  have d1: "\<And>a. ?item + 4 \<le> a \<Longrightarrow> m_data b1 a
              = (if m_written b \<le> a \<and> a < m_written b + space then 0 else m_data b a)"
  proof -
    fix a assume a: "?item + 4 \<le> a"
    show "m_data b1 a = (if m_written b \<le> a \<and> a < m_written b + space then 0 else m_data b a)"
    proof (cases "?n > 7")
      case False
      then show ?thesis by (auto simp: b1_def space_def)
    next
      case True
      let ?bb = "fill_n (m_written b) (padded_length (?n - 7)) 0
                (snd (reserve_space b (padded_length (?n - 7))))"
      have "parent_fields_before this ?bb"
        using pf by (simp add: parent_fields_before_cong [of ?bb b])
      moreover have "item_pos this ?bb + 4 \<le> a" using a by simp
      ultimately have "m_data (add_size this (of_nat (padded_length (?n - 7))) ?bb) a = m_data ?bb a"
        by (rule add_size_above)
      with True show ?thesis by (simp add: b1_def space_def)
    qed
  qed
  have r: "ChangesetBuilder_set_user L this user len b = Done b3"
    using us sz
    by (simp add: ChangesetBuilder_set_user_def Let_def
        b3_def b2_def b1_def len1 case_prod_beta add.commute)
  have c3: "m_committed b3 = m_committed b"
    by (simp add: b3_def b2_def c1 Changeset_set_user_size_def)
  have i3: "item_pos this b3 = ?item" by (simp add: item_pos_def c3)
  have w3: "m_written b3 = m_written b + space"
    by (simp add: b3_def b2_def w1 Changeset_set_user_size_def)
  have us3: "Changeset_user_size L b3 ?item = len + 1"
    by (simp add: b3_def Changeset_user_size_def Changeset_set_user_size_def)
  have d3: "\<And>a. ?name \<le> a \<Longrightarrow> m_data b3 a
              = (if a < ?name + ?n then user ! (a - ?name) else m_data b1 a)"
    using l(1) o by (simp add: b3_def b2_def Changeset_set_user_size_def)
  have nm: "Changeset_user L b3 ?item = user"
    unfolding Changeset_user_def us3 len1
    by (rule bytes_at_eq_list) (use l(1) d3 in simp_all)
  have room: "?name + ?n < m_written b + space"
  proof (cases "?n > 7")
    case True
    then have "?n - 7 \<le> space" using padded_length_ge [of "?n - 7"] by (simp add: space_def)
    with True w show ?thesis by simp
  next
    case False
    with w show ?thesis by (simp add: space_def)
  qed
  have z: "\<forall>a. ?name + ?n \<le> a \<and> a < m_written b + space \<longrightarrow> m_data b3 a = 0"
  proof (intro allI impI)
    fix a assume a: "?name + ?n \<le> a \<and> a < m_written b + space"
    then have "m_data b3 a = m_data b1 a" using d3 [of a] by simp
    also have "\<dots> = (if m_written b \<le> a \<and> a < m_written b + space then 0 else m_data b a)"
      using a o by (intro d1) simp
    also have "\<dots> = 0" using a w zero [of a] by auto
    finally show "m_data b3 a = 0" .
  qed
  show ?thesis
    using r us3 nm w3 room z l(1) len1
    by (auto simp: i3 space_def)
qed

lemma new_ChangesetBuilder_slot:
  assumes "new_ChangesetBuilder L buffer parent = (this, b)"
  shows "Changeset_user_size L b (item_pos this b) = 1"
    and "changeset_user_size_offset L + 2 \<le> sizeof_Changeset L
         \<Longrightarrow> bytes_at b (item_pos this b + sizeof_Changeset L) 8 = replicate 8 0"
    and "m_written b = m_written buffer + (sizeof_Changeset L + 8)"
    and "m_committed buffer \<le> m_written buffer \<Longrightarrow> item_pos this b = m_written buffer"
proof -
  let ?bld = "Builder (m_written buffer - m_committed buffer) parent"
  have t: "this = ?bld"
    using assms by (auto simp: new_ChangesetBuilder_def new_Builder_def Let_def)
  let ?item = "m_committed buffer + (m_written buffer - m_committed buffer)"
  have b: "\<exists>b4. b = Changeset_set_user_size L ?item 1 (fill_n (?item + sizeof_Changeset L) 8 0 b4)
               \<and> m_written b4 = m_written buffer + (sizeof_Changeset L + 8)
               \<and> m_committed b4 = m_committed buffer"
    using assms
    by (auto simp: new_ChangesetBuilder_def new_Builder_def Let_def placement_new_Item_def
        item_pos_def split: option.splits)
  then obtain b4 where b4: "b = Changeset_set_user_size L ?item 1 (fill_n (?item + sizeof_Changeset L) 8 0 b4)"
    "m_written b4 = m_written buffer + (sizeof_Changeset L + 8)" "m_committed b4 = m_committed buffer"
    by blast
  have c: "m_committed b = m_committed buffer"
    by (simp add: b4 Changeset_set_user_size_def)
  have ip: "item_pos this b = ?item"
    by (simp add: item_pos_def c t)
  show "Changeset_user_size L b (item_pos this b) = 1"
    unfolding ip by (simp add: b4 Changeset_user_size_def Changeset_set_user_size_def)
  show "changeset_user_size_offset L + 2 \<le> sizeof_Changeset L
         \<Longrightarrow> bytes_at b (item_pos this b + sizeof_Changeset L) 8 = replicate 8 0"
    unfolding ip
    by (rule bytes_at_eq_replicate) (simp add: b4 Changeset_set_user_size_def)
  show "m_written b = m_written buffer + (sizeof_Changeset L + 8)"
    by (simp add: b4 Changeset_set_user_size_def)
  show "m_committed buffer \<le> m_written buffer \<Longrightarrow> item_pos this b = m_written buffer"
    unfolding ip by simp
qed

lemma padded_length_mod: "padded_length n mod align_bytes = 0"
  by (simp add: padded_length_def)

lemmas builder_eval =
  new_OSMObjectBuilder_def new_ChangesetBuilder_def new_Builder_def reserve_space_def
  Buffer_reserve_space_def placement_new_Item_def placement_new_def put_uint32_def put_uint16_def
  get_uint32_def get_uint16_def copy_n_def fill_n_def Item_add_size_def item_pos_def
  OSMObject_set_user_size_def OSMObject_user_size_def Changeset_set_user_size_def
  Changeset_user_size_def bytes_at_def min_size_for_user_def changeset_min_size_for_user_def
  padded_length_def align_bytes_def sizeof_string_size_type_def Let_def
  ex_buffer_def ex_layout_def ex_object_builder_def ex_changeset_builder_def

lemma padded_length_pos: "0 < n \<Longrightarrow> 0 < padded_length n"
  using padded_length_ge [of n] by simp

lemma add_user_outcome: "add_user L this comment user buffer \<noteq> Assertion_failed"
  by (simp add: add_user_def Let_def case_prod_beta)

lemma add_text_outcome: "add_text L this comment text buffer \<noteq> Assertion_failed"
  by (simp add: add_text_def Let_def case_prod_beta)

lemma call_pending:
  "run_call L this c s = Assertion_failed \<longleftrightarrow> (is_begin c \<longleftrightarrow> m_comment s \<noteq> None)"
  "run_call L this c s = Done s' \<Longrightarrow> (m_comment s' \<noteq> None) = is_begin c"
  "run_call L this c s = Throws e s' \<Longrightarrow> (m_comment s' \<noteq> None) = is_begin c"
  using add_user_outcome add_text_outcome
  by (cases c; auto simp: add_comment_def add_comment_text_cstr_def add_comment_text_string_def
      Let_def case_prod_beta split: outcome.splits option.splits if_splits)+

lemma calls_pending:
  "(run_calls L this cs s = Assertion_failed \<longleftrightarrow> pending_after (m_comment s \<noteq> None) cs = None) \<and>
   (\<forall>s'. run_calls L this cs s = Done s'
         \<longrightarrow> pending_after (m_comment s \<noteq> None) cs = Some (m_comment s' \<noteq> None)) \<and>
   (\<forall>e s'. run_calls L this cs s \<noteq> Throws e s')"
proof (induction cs arbitrary: s)
  case Nil
  then show ?case by simp
next
  case (Cons c cs)
  show ?case
  proof (cases "run_call L this c s")
    case (Done s1)
    with call_pending(1) [of L this c s] call_pending(2) [OF Done] Cons.IH [of s1]
    show ?thesis by (cases "is_begin c") auto
  next
    case (Throws e s1)
    with call_pending(1) [of L this c s] call_pending(3) [OF Throws] Cons.IH [of s1]
    show ?thesis by (cases "is_begin c") auto
  next
    case Assertion_failed
    with call_pending(1) [of L this c s]
    show ?thesis by (cases "is_begin c") auto
  qed
qed

lemma alternating_pending: "alternating cs \<longleftrightarrow> pending_after False cs = Some False"
  by (induction cs rule: alternating.induct) auto

lemma new_ChangesetDiscussionBuilder_pending:
  "m_comment (snd (new_ChangesetDiscussionBuilder L buffer parent)) = None"
  by (simp add: new_ChangesetDiscussionBuilder_def case_prod_beta)

lemma lifetime_alternating:
  "lifetime L buffer parent cs = Assertion_failed \<longleftrightarrow> \<not> alternating cs"
proof -
  obtain this s where n: "new_ChangesetDiscussionBuilder L buffer parent = (this, s)"
    by (cases "new_ChangesetDiscussionBuilder L buffer parent")
  with new_ChangesetDiscussionBuilder_pending [of L buffer parent]
  have p: "m_comment s = None" by simp
  show ?thesis
  proof (cases "run_calls L this cs s")
    case (Done s')
    with calls_pending [of L this cs s] p
    have "pending_after False cs = Some (m_comment s' \<noteq> None)" by simp
    with Done n show ?thesis
      by (auto simp: lifetime_def alternating_pending delete_ChangesetDiscussionBuilder_def)
  next
    case (Throws e s')
    with calls_pending [of L this cs s] show ?thesis by simp
  next
    case Assertion_failed
    with calls_pending [of L this cs s] p
    have "pending_after False cs = None" by simp
    with Assertion_failed n show ?thesis
      by (simp add: lifetime_def alternating_pending)
  qed
qed



lemma append_simps [simp]:
  "m_written (snd (append data buffer)) = m_written buffer + length data"
  "m_committed (snd (append data buffer)) = m_committed buffer"
  by (simp_all add: append_def case_prod_beta)


section \<open>Claims about the index table\<close>




text \<open>
  C2. The claim says that a header type differing in any way from the expected string,
  the empty type and a strict prefix included, makes construction fail with the
  unexpected-type error. The code compares with \<open>strncmp\<close> bounded by the length of
  the header's type: the header block with type \<open>OSM\<close> and the data block with the
  empty type are both accepted, and the file is indexed.
\<close>

theorem prefix_of_expected_type_accepted:
  "decode_blob_header protobuf_reader (blob_header_bytes (bytes_of ''OSM'') 2) OSMHeader = Inr 2 \<and>
   decode_blob_header protobuf_reader (blob_header_bytes [] 3) OSMData = Inr 3 \<and>
   (\<exists>t. new_PbfBlockIndexTable True protobuf_reader (container_bytes ex_prefix_typed) = Inr t \<and>
        block_starts t = [\<lparr>file_offset = 21, first_item_id_or_zero = 0, datasize = 3,
                            first_item_type_or_zero = item_type_undefined\<rparr>])"
  by (simp add: pbf_eval ex_prefix_typed_def)

text \<open>
  C5. The claim says that the length prefix is the big-endian unsigned value of its four
  bytes, also for bytes with the high bit set. Where plain \<open>char\<close> is signed, the byte
  \<open>0x80\<close> is sign-extended by the cast: the prefix \<open>00 00 00 80\<close> gives
  \<open>0xFFFFFF80\<close>, not 128. (\<open>get_size_unsigned_char\<close> above is the claim where plain
  \<open>char\<close> is unsigned.)
\<close>

theorem get_size_signed_char_high_bit:
  "get_size_in_network_byte_order True [0, 0, 0, 0x80] = 0xFFFFFF80 \<and>
   unat (get_size_in_network_byte_order True [0, 0, 0, 0x80]) \<noteq> 0 * 2 ^ 24 + 0 * 2 ^ 16 + 0 * 2 ^ 8 + 128"
  by (simp add: get_size_in_network_byte_order_def char_to_uint32_def)





text \<open>
  C3. For every call \<open>get_parsed_block(i, metadata_flags)\<close> with a valid index whose
  block lies in the file, the block decoder is called on the block's bytes with the
  entity-kind filter "all kinds" and the caller's metadata flag unchanged: what the call
  returns is what the decoder returns for exactly these arguments. Hence two decoders
  that agree whenever all kinds are asked for (with this metadata flag) cannot be told
  apart through \<open>get_parsed_block\<close>, however they differ on narrower filters.
\<close>

theorem get_parsed_block_decodes_all_kinds:
  assumes "i < length (m_block_starts this)"
    and "file_offset (m_block_starts this ! i) + unat (datasize (m_block_starts this ! i))
         \<le> length (fd_content (m_fd this))"
  shows "fst (get_parsed_block dec this i m)
         = (case dec (take (unat (datasize (m_block_starts this ! i)))
                        (drop (file_offset (m_block_starts this ! i)) (fd_content (m_fd this))))
                     osm_entity_bits_all m of
              None \<Rightarrow> Inl BlockDecodeError
            | Some buffer \<Rightarrow> Inr buffer) \<and>
         ((\<forall>input. dec input osm_entity_bits_all m = dec' input osm_entity_bits_all m)
          \<longrightarrow> get_parsed_block dec this i m = get_parsed_block dec' this i m)"
proof
  let ?e = "m_block_starts this ! i"
  let ?f1 = "file_seek (m_fd this) (file_offset ?e)"
  have "read_exactly ?f1 (unat (datasize ?e))
        = (True, take (unat (datasize ?e)) (drop (file_offset ?e) (fd_content (m_fd this))),
           ?f1\<lparr>fd_pos := file_offset ?e + unat (datasize ?e)\<rparr>)"
    using read_exactly_enough [of ?f1 "unat (datasize ?e)"] assms(2)
    by (simp add: file_seek_def)
  then show "fst (get_parsed_block dec this i m)
         = (case dec (take (unat (datasize ?e)) (drop (file_offset ?e) (fd_content (m_fd this))))
                     osm_entity_bits_all m of
              None \<Rightarrow> Inl BlockDecodeError
            | Some buffer \<Rightarrow> Inr buffer)"
    using assms(1) by (simp add: get_parsed_block_def Let_def split: option.splits)
next
  show "(\<forall>input. dec input osm_entity_bits_all m = dec' input osm_entity_bits_all m)
          \<longrightarrow> get_parsed_block dec this i m = get_parsed_block dec' this i m"
    by (simp add: get_parsed_block_def Let_def split: prod.splits bool.splits)
qed

theorem get_parsed_block_decodes_all_kinds_witness:
  "fst (get_parsed_block ex_decoder ex_table 1 read_meta_no)
   = Inr [\<lparr>object_id = 4, object_type = item_type_node\<rparr>] \<and>
   get_parsed_block ex_decoder ex_table 1 read_meta_no
   = get_parsed_block ex_decoder_any ex_table 1 read_meta_no \<and>
   ex_decoder [4] 2 read_meta_no \<noteq> ex_decoder_any [4] 2 read_meta_no"
proof -
  have i: "1 < length (m_block_starts ex_table)"
    by (simp add: ex_table_def)
  have b: "file_offset (m_block_starts ex_table ! 1) + unat (datasize (m_block_starts ex_table ! 1))
           \<le> length (fd_content (m_fd ex_table))"
    by (simp add: ex_table_def ex_eval pbf_eval)
  have a: "\<forall>input. ex_decoder input osm_entity_bits_all read_meta_no
                  = ex_decoder_any input osm_entity_bits_all read_meta_no"
    by (simp add: ex_decoder_def ex_decoder_any_def osm_entity_bits_all_def)
  have c: "take (unat (datasize (m_block_starts ex_table ! 1)))
             (drop (file_offset (m_block_starts ex_table ! 1)) (fd_content (m_fd ex_table))) = [4]"
    by (simp add: ex_table_def ex_eval pbf_eval)
  have n: "ex_decoder [4] 2 read_meta_no \<noteq> ex_decoder_any [4] 2 read_meta_no"
    by (simp add: ex_decoder_def ex_decoder_any_def)
  note t = get_parsed_block_decodes_all_kinds [OF i b, of ex_decoder read_meta_no ex_decoder_any]
  have r: "fst (get_parsed_block ex_decoder ex_table 1 read_meta_no)
           = Inr [\<lparr>object_id = 4, object_type = item_type_node\<rparr>]"
    using t [THEN conjunct1] unfolding c by (simp add: ex_decoder_def osm_entity_bits_all_def)
  have e: "get_parsed_block ex_decoder ex_table 1 read_meta_no
           = get_parsed_block ex_decoder_any ex_table 1 read_meta_no"
    using t [THEN conjunct2] a by blast
  from r e n show ?thesis by blast
qed


text \<open>
  C4. The entries of a freshly constructed table all have unknown first-item fields.
  Over every sequence of \<open>get_parsed_block\<close> calls, the number of entries and every
  entry's \<open>file_offset\<close> and \<open>datasize\<close> stay as they were, and an entry whose
  first-item type is not undefined is never changed again. A single call changes an entry
  with unknown first-item fields only when it is the entry asked for and the decoded
  buffer is not empty: then it takes the id and the type of the first decoded object,
  which is not undefined; when the call fails or the buffer is empty, the entry stays
  unknown.
\<close>

theorem first_item_cached_once:
  assumes "decodes_objects dec"
  shows
    "(new_PbfBlockIndexTable sg rd file = Inr t0 \<longrightarrow>
        list_all unknown_first_item (block_starts t0)) \<and>
     length (m_block_starts (get_parsed_blocks dec this calls)) = length (m_block_starts this) \<and>
     file_offset (m_block_starts (get_parsed_blocks dec this calls) ! k)
       = file_offset (m_block_starts this ! k) \<and>
     datasize (m_block_starts (get_parsed_blocks dec this calls) ! k)
       = datasize (m_block_starts this ! k) \<and>
     (first_item_type_or_zero (m_block_starts this ! k) \<noteq> item_type_undefined \<longrightarrow>
        m_block_starts (get_parsed_blocks dec this calls) ! k = m_block_starts this ! k) \<and>
     (k < length (m_block_starts this) \<and>
      first_item_type_or_zero (m_block_starts this ! k) = item_type_undefined \<longrightarrow>
        m_block_starts (snd (get_parsed_block dec this i m)) ! k
        = (case fst (get_parsed_block dec this i m) of
             Inr (ob # rest) \<Rightarrow>
               if i = k
               then (m_block_starts this ! k)\<lparr>first_item_id_or_zero := object_id ob,
                                               first_item_type_or_zero := object_type ob\<rparr>
               else m_block_starts this ! k
           | _ \<Rightarrow> m_block_starts this ! k)) \<and>
     (fst (get_parsed_block dec this i m) = Inr (ob # rest) \<longrightarrow>
        object_type ob \<noteq> item_type_undefined)"
proof (intro conjI impI)
  assume "new_PbfBlockIndexTable sg rd file = Inr t0"
  then show "list_all unknown_first_item (block_starts t0)"
    by (rule new_PbfBlockIndexTable_unknown)
next
  show "length (m_block_starts (get_parsed_blocks dec this calls)) = length (m_block_starts this)"
    by (rule get_parsed_blocks_length)
next
  show "file_offset (m_block_starts (get_parsed_blocks dec this calls) ! k)
       = file_offset (m_block_starts this ! k)"
    by (simp add: get_parsed_blocks_offsets)
next
  show "datasize (m_block_starts (get_parsed_blocks dec this calls) ! k)
       = datasize (m_block_starts this ! k)"
    by (simp add: get_parsed_blocks_offsets)
next
  assume "first_item_type_or_zero (m_block_starts this ! k) \<noteq> item_type_undefined"
  then show "m_block_starts (get_parsed_blocks dec this calls) ! k = m_block_starts this ! k"
    by (rule get_parsed_blocks_resolved)
next
  assume "k < length (m_block_starts this) \<and>
      first_item_type_or_zero (m_block_starts this ! k) = item_type_undefined"
  then show "m_block_starts (snd (get_parsed_block dec this i m)) ! k
        = (case fst (get_parsed_block dec this i m) of
             Inr (ob # rest) \<Rightarrow>
               if i = k
               then (m_block_starts this ! k)\<lparr>first_item_id_or_zero := object_id ob,
                                               first_item_type_or_zero := object_type ob\<rparr>
               else m_block_starts this ! k
           | _ \<Rightarrow> m_block_starts this ! k)"
    using get_parsed_block_unresolved [of k this dec i m] by simp
next
  assume "fst (get_parsed_block dec this i m) = Inr (ob # rest)"
  from get_parsed_block_decoded [OF this] assms
  show "object_type ob \<noteq> item_type_undefined"
    unfolding decodes_objects_def by (metis list.set_intros(1))
qed

theorem first_item_cached_once_witness:
  "new_PbfBlockIndexTable True protobuf_reader (container_bytes (ex_header # ex_data)) = Inr ex_table \<and>
   list_all unknown_first_item (block_starts ex_table) \<and>
   fst (get_parsed_block ex_decoder ex_table 1 read_meta_no)
   = Inr [\<lparr>object_id = 4, object_type = item_type_node\<rparr>] \<and>
   m_block_starts (snd (get_parsed_block ex_decoder ex_table 1 read_meta_no)) ! 1
   = \<lparr>file_offset = 52, first_item_id_or_zero = 4, datasize = 1,
      first_item_type_or_zero = item_type_node\<rparr> \<and>
   m_block_starts (get_parsed_blocks ex_decoder
       (snd (get_parsed_block ex_decoder ex_table 1 read_meta_no))
       [(0, read_meta_yes), (1, read_meta_yes), (2, read_meta_no)]) ! 1
   = \<lparr>file_offset = 52, first_item_id_or_zero = 4, datasize = 1,
      first_item_type_or_zero = item_type_node\<rparr>"
proof -
  have dec: "decodes_objects ex_decoder"
    by (auto simp: decodes_objects_def ex_decoder_def)
  have c: "new_PbfBlockIndexTable True protobuf_reader (container_bytes (ex_header # ex_data))
           = Inr ex_table"
    by (simp add: ex_table_def ex_eval pbf_eval)
  have f: "fst (get_parsed_block ex_decoder ex_table 1 read_meta_no)
           = Inr [\<lparr>object_id = 4, object_type = item_type_node\<rparr>]"
    by (simp add: table_eval ex_eval pbf_eval)
  have u: "1 < length (m_block_starts ex_table) \<and>
           first_item_type_or_zero (m_block_starts ex_table ! 1) = item_type_undefined"
    by (simp add: ex_table_def)
  note t = first_item_cached_once [OF dec, of True protobuf_reader
      "container_bytes (ex_header # ex_data)" ex_table ex_table "[]" 1 1 read_meta_no]
  have a: "list_all unknown_first_item (block_starts ex_table)"
    using t c by blast
  have w: "m_block_starts (snd (get_parsed_block ex_decoder ex_table 1 read_meta_no)) ! 1
           = \<lparr>file_offset = 52, first_item_id_or_zero = 4, datasize = 1,
              first_item_type_or_zero = item_type_node\<rparr>"
    using t u unfolding f by (simp add: ex_table_def)
  let ?s = "snd (get_parsed_block ex_decoder ex_table 1 read_meta_no)"
  have "first_item_type_or_zero (m_block_starts ?s ! 1) \<noteq> item_type_undefined"
    unfolding w by simp
  with first_item_cached_once [OF dec, of True protobuf_reader "[]" ex_table ?s
      "[(0, read_meta_yes), (1, read_meta_yes), (2, read_meta_no)]" 1 1 read_meta_no]
  have k: "m_block_starts (get_parsed_blocks ex_decoder ?s
       [(0, read_meta_yes), (1, read_meta_yes), (2, read_meta_no)]) ! 1 = m_block_starts ?s ! 1"
    by blast
  from c a f w k show ?thesis by (simp only:)
qed

section \<open>Claims about the builders\<close>




text \<open>
  C8. When \<open>set_user\<close> has not been called yet and no sub-builder has been opened
  (\<open>user_unset\<close>, \<open>changeset_user_unset\<close>), \<open>set_user(user, length)\<close> with a length of
  at most \<open>max_osm_string_length\<close> returns; afterwards the user name of the object is
  \<open>user\<close> and the stored \<open>user_size\<close> is \<open>length + 1\<close>. The buffer grows exactly when
  the length exceeds the space reserved by the constructor (5 bytes in an OSM object, 7 in
  a changeset), by a multiple of the alignment, and every byte after the name up to the
  end of what is written is zero. The same holds for \<open>OSMObjectBuilder\<close> and
  \<open>ChangesetBuilder\<close>.
\<close>

theorem set_user_stores_name:
  assumes "length user = unat len" and "unat len \<le> max_osm_string_length"
    and "user_unset sizeof_T this b"
    and "changeset_user_unset L this' c"
  shows
    "(\<exists>b'. OSMObjectBuilder_set_user sizeof_T this user len b = Done b' \<and>
        OSMObject_user_size sizeof_T b' (item_pos this b') = len + 1 \<and>
        unat (OSMObject_user_size sizeof_T b' (item_pos this b')) = length user + 1 \<and>
        OSMObject_user sizeof_T b' (item_pos this b') = user \<and>
        m_written b' = m_written b + (if unat len > 5 then padded_length (unat len - 5) else 0) \<and>
        (m_written b' - m_written b) mod align_bytes = 0 \<and>
        (m_written b < m_written b') = (unat len > min_size_for_user - sizeof_string_size_type - 1) \<and>
        item_pos this b' + sizeof_T + sizeof_string_size_type + length user < m_written b' \<and>
        (\<forall>a. item_pos this b' + sizeof_T + sizeof_string_size_type + length user \<le> a
             \<and> a < m_written b' \<longrightarrow> m_data b' a = 0)) \<and>
     (\<exists>c'. ChangesetBuilder_set_user L this' user len c = Done c' \<and>
        Changeset_user_size L c' (item_pos this' c') = len + 1 \<and>
        unat (Changeset_user_size L c' (item_pos this' c')) = length user + 1 \<and>
        Changeset_user L c' (item_pos this' c') = user \<and>
        m_written c' = m_written c + (if unat len > 7 then padded_length (unat len - 7) else 0) \<and>
        (m_written c' - m_written c) mod align_bytes = 0 \<and>
        (m_written c < m_written c') = (unat len > changeset_min_size_for_user - 1) \<and>
        item_pos this' c' + sizeof_Changeset L + length user < m_written c' \<and>
        (\<forall>a. item_pos this' c' + sizeof_Changeset L + length user \<le> a
             \<and> a < m_written c' \<longrightarrow> m_data c' a = 0))"
proof
  from OSMObjectBuilder_set_user_unset [OF assms(3,1,2)] obtain b' where
    b': "OSMObjectBuilder_set_user sizeof_T this user len b = Done b'"
      "OSMObject_user_size sizeof_T b' (item_pos this b') = len + 1"
      "unat (OSMObject_user_size sizeof_T b' (item_pos this b')) = length user + 1"
      "OSMObject_user sizeof_T b' (item_pos this b') = user"
      "m_written b' = m_written b + (if unat len > 5 then padded_length (unat len - 5) else 0)"
      "item_pos this b' + sizeof_T + sizeof_string_size_type + length user < m_written b'"
      "\<forall>a. item_pos this b' + sizeof_T + sizeof_string_size_type + length user \<le> a
             \<and> a < m_written b' \<longrightarrow> m_data b' a = 0"
    by blast
  have m: "(m_written b' - m_written b) mod align_bytes = 0"
    by (simp add: b'(5) padded_length_mod)
  have g: "(m_written b < m_written b') = (unat len > min_size_for_user - sizeof_string_size_type - 1)"
    using padded_length_pos [of "unat len - 5"]
    by (auto simp: b'(5) sizeof_string_size_type_def)
  from b' m g
  show "\<exists>b'. OSMObjectBuilder_set_user sizeof_T this user len b = Done b' \<and>
        OSMObject_user_size sizeof_T b' (item_pos this b') = len + 1 \<and>
        unat (OSMObject_user_size sizeof_T b' (item_pos this b')) = length user + 1 \<and>
        OSMObject_user sizeof_T b' (item_pos this b') = user \<and>
        m_written b' = m_written b + (if unat len > 5 then padded_length (unat len - 5) else 0) \<and>
        (m_written b' - m_written b) mod align_bytes = 0 \<and>
        (m_written b < m_written b') = (unat len > min_size_for_user - sizeof_string_size_type - 1) \<and>
        item_pos this b' + sizeof_T + sizeof_string_size_type + length user < m_written b' \<and>
        (\<forall>a. item_pos this b' + sizeof_T + sizeof_string_size_type + length user \<le> a
             \<and> a < m_written b' \<longrightarrow> m_data b' a = 0)"
    by - (rule exI [of _ b'], intro conjI, assumption+)
next
  from ChangesetBuilder_set_user_unset [OF assms(4,1,2)] obtain c' where
    c': "ChangesetBuilder_set_user L this' user len c = Done c'"
      "Changeset_user_size L c' (item_pos this' c') = len + 1"
      "unat (Changeset_user_size L c' (item_pos this' c')) = length user + 1"
      "Changeset_user L c' (item_pos this' c') = user"
      "m_written c' = m_written c + (if unat len > 7 then padded_length (unat len - 7) else 0)"
      "item_pos this' c' + sizeof_Changeset L + length user < m_written c'"
      "\<forall>a. item_pos this' c' + sizeof_Changeset L + length user \<le> a
             \<and> a < m_written c' \<longrightarrow> m_data c' a = 0"
    by blast
  have m: "(m_written c' - m_written c) mod align_bytes = 0"
    by (simp add: c'(5) padded_length_mod)
  have g: "(m_written c < m_written c') = (unat len > changeset_min_size_for_user - 1)"
    using padded_length_pos [of "unat len - 7"]
    by (auto simp: c'(5))
  from c' m g
  show "\<exists>c'. ChangesetBuilder_set_user L this' user len c = Done c' \<and>
        Changeset_user_size L c' (item_pos this' c') = len + 1 \<and>
        unat (Changeset_user_size L c' (item_pos this' c')) = length user + 1 \<and>
        Changeset_user L c' (item_pos this' c') = user \<and>
        m_written c' = m_written c + (if unat len > 7 then padded_length (unat len - 7) else 0) \<and>
        (m_written c' - m_written c) mod align_bytes = 0 \<and>
        (m_written c < m_written c') = (unat len > changeset_min_size_for_user - 1) \<and>
        item_pos this' c' + sizeof_Changeset L + length user < m_written c' \<and>
        (\<forall>a. item_pos this' c' + sizeof_Changeset L + length user \<le> a
             \<and> a < m_written c' \<longrightarrow> m_data c' a = 0)"
    by - (rule exI [of _ c'], intro conjI, assumption+)
qed

theorem set_user_stores_name_witness:
  "(\<exists>b'. OSMObjectBuilder_set_user 40 (fst ex_object_builder) (bytes_of ''OpenStreetMap'') 13
             (snd ex_object_builder) = Done b' \<and>
         unat (OSMObject_user_size 40 b' (item_pos (fst ex_object_builder) b')) = 14 \<and>
         OSMObject_user 40 b' (item_pos (fst ex_object_builder) b') = bytes_of ''OpenStreetMap'' \<and>
         m_written b' = 72) \<and>
   (\<exists>c'. ChangesetBuilder_set_user ex_layout (fst ex_changeset_builder) (bytes_of ''OpenStreetMap'') 13
             (snd ex_changeset_builder) = Done c' \<and>
         unat (Changeset_user_size ex_layout c' (item_pos (fst ex_changeset_builder) c')) = 14 \<and>
         Changeset_user ex_layout c' (item_pos (fst ex_changeset_builder) c')
         = bytes_of ''OpenStreetMap'' \<and>
         m_written c' = 96)"
proof -
  have u: "length (bytes_of ''OpenStreetMap'') = unat (13 :: string_size_type)"
    by (simp add: bytes_of_def)
  have n: "unat (13 :: string_size_type) \<le> max_osm_string_length"
    by (simp add: max_osm_string_length_def)
  have m: "m_committed ex_buffer \<le> m_written ex_buffer"
    by (simp add: ex_buffer_def)
  have a: "ancestors_written None ex_buffer"
    by (simp add: ancestors_written_def)
  have o: "user_unset 40 (fst ex_object_builder) (snd ex_object_builder)"
    by (rule new_OSMObjectBuilder_unset [of 40 "\<lambda>k. 0xCC" ex_buffer None, OF _ m _ a])
       (simp_all add: ex_object_builder_def)
  have c: "changeset_user_unset ex_layout (fst ex_changeset_builder) (snd ex_changeset_builder)"
    by (rule new_ChangesetBuilder_unset [of ex_layout ex_buffer None, OF _ m _ _ a])
       (simp_all add: ex_changeset_builder_def ex_layout_def)
  have wo: "m_written (snd ex_object_builder) = 64"
    by (simp add: builder_eval)
  have wc: "m_written (snd ex_changeset_builder) = 88"
    by (simp add: builder_eval)
  have p: "padded_length 8 = 8" "padded_length 6 = 8"
    by (simp_all add: padded_length_def align_bytes_def)
  note t = set_user_stores_name [OF u n o c]
  from t [THEN conjunct1] obtain b' where
    b': "OSMObjectBuilder_set_user 40 (fst ex_object_builder) (bytes_of ''OpenStreetMap'') 13
           (snd ex_object_builder) = Done b'"
      "unat (OSMObject_user_size 40 b' (item_pos (fst ex_object_builder) b'))
         = length (bytes_of ''OpenStreetMap'') + 1"
      "OSMObject_user 40 b' (item_pos (fst ex_object_builder) b') = bytes_of ''OpenStreetMap''"
      "m_written b' = m_written (snd ex_object_builder)
         + (if unat (13 :: string_size_type) > 5
            then padded_length (unat (13 :: string_size_type) - 5) else 0)"
    by (elim exE conjE)
  from t [THEN conjunct2] obtain c' where
    c': "ChangesetBuilder_set_user ex_layout (fst ex_changeset_builder) (bytes_of ''OpenStreetMap'') 13
           (snd ex_changeset_builder) = Done c'"
      "unat (Changeset_user_size ex_layout c' (item_pos (fst ex_changeset_builder) c'))
         = length (bytes_of ''OpenStreetMap'') + 1"
      "Changeset_user ex_layout c' (item_pos (fst ex_changeset_builder) c')
         = bytes_of ''OpenStreetMap''"
      "m_written c' = m_written (snd ex_changeset_builder)
         + (if unat (13 :: string_size_type) > 7
            then padded_length (unat (13 :: string_size_type) - 7) else 0)"
    by (elim exE conjE)
  have l: "length (bytes_of ''OpenStreetMap'') + 1 = 14" by (simp add: bytes_of_def)
  have wb: "m_written b' = 72" using b'(4) by (simp add: wo p)
  have wc': "m_written c' = 96" using c'(4) by (simp add: wc p)
  have 1: "\<exists>b'. OSMObjectBuilder_set_user 40 (fst ex_object_builder) (bytes_of ''OpenStreetMap'') 13
             (snd ex_object_builder) = Done b' \<and>
         unat (OSMObject_user_size 40 b' (item_pos (fst ex_object_builder) b')) = 14 \<and>
         OSMObject_user 40 b' (item_pos (fst ex_object_builder) b') = bytes_of ''OpenStreetMap'' \<and>
         m_written b' = 72"
    using b'(1) b'(2) [unfolded l] b'(3) wb
    by - (rule exI [of _ b'], intro conjI, assumption+)
  have 2: "\<exists>c'. ChangesetBuilder_set_user ex_layout (fst ex_changeset_builder) (bytes_of ''OpenStreetMap'') 13
             (snd ex_changeset_builder) = Done c' \<and>
         unat (Changeset_user_size ex_layout c' (item_pos (fst ex_changeset_builder) c')) = 14 \<and>
         Changeset_user ex_layout c' (item_pos (fst ex_changeset_builder) c')
         = bytes_of ''OpenStreetMap'' \<and>
         m_written c' = 96"
    using c'(1) c'(2) [unfolded l] c'(3) wc'
    by - (rule exI [of _ c'], intro conjI, assumption+)
  from 1 2 show ?thesis by (rule conjI)
qed

text \<open>
  C9. Over the life of a \<open>ChangesetDiscussionBuilder\<close> (construction, any sequence of
  calls, destruction) an assertion fails exactly when the calls do not strictly alternate
  \<open>add_comment\<close>, \<open>add_comment_text\<close>, ... with no comment pending at destruction. In
  particular \<open>add_comment_text\<close> without a pending comment fails its assertion, and so do
  \<open>add_comment\<close> and the destructor with a comment pending.
\<close>

theorem comment_calls_alternate:
  "(lifetime L buffer parent cs = Assertion_failed) = (\<not> alternating cs) \<and>
   (m_comment s = None \<longrightarrow>
      add_comment_text_cstr L this text s = Assertion_failed \<and>
      add_comment_text_string L this text s = Assertion_failed) \<and>
   (m_comment s \<noteq> None \<longrightarrow>
      add_comment L this date uid user s = Assertion_failed \<and>
      delete_ChangesetDiscussionBuilder this s = Assertion_failed)"
  using lifetime_alternating [of L buffer parent cs]
  by (auto simp: add_comment_text_cstr_def add_comment_text_string_def add_comment_def
      delete_ChangesetDiscussionBuilder_def)

theorem comment_calls_alternate_witness:
  "lifetime ex_layout ex_buffer None
     [Add_comment 0 1 (bytes_of ''alice''), Add_comment_text_cstr (bytes_of ''hello''),
      Add_comment 2 3 (replicate 1025 65), Add_comment_text_string (bytes_of ''bye'')]
   \<noteq> Assertion_failed \<and>
   lifetime ex_layout ex_buffer None [Add_comment_text_cstr (bytes_of ''hello'')] = Assertion_failed \<and>
   lifetime ex_layout ex_buffer None
     [Add_comment 0 1 (bytes_of ''alice''), Add_comment 2 3 (bytes_of ''bob'')] = Assertion_failed \<and>
   lifetime ex_layout ex_buffer None [Add_comment 0 1 (bytes_of ''alice'')] = Assertion_failed \<and>
   add_comment_text_cstr ex_layout (Builder 0 None) (bytes_of ''hello'') ex_not_pending
   = Assertion_failed \<and>
   add_comment ex_layout (Builder 0 None) 0 1 (bytes_of ''alice'') ex_pending = Assertion_failed \<and>
   delete_ChangesetDiscussionBuilder (Builder 0 None) ex_pending = Assertion_failed"
proof -
  note t = comment_calls_alternate [of ex_layout ex_buffer None]
  have 1: "lifetime ex_layout ex_buffer None
     [Add_comment 0 1 (bytes_of ''alice''), Add_comment_text_cstr (bytes_of ''hello''),
      Add_comment 2 3 (replicate 1025 65), Add_comment_text_string (bytes_of ''bye'')]
   \<noteq> Assertion_failed"
    using t [of "[Add_comment 0 1 (bytes_of ''alice''), Add_comment_text_cstr (bytes_of ''hello''),
      Add_comment 2 3 (replicate 1025 65), Add_comment_text_string (bytes_of ''bye'')]"
      ex_not_pending "Builder 0 None" "[]" 0 0 "[]"]
    by simp
  have 2: "lifetime ex_layout ex_buffer None [Add_comment_text_cstr (bytes_of ''hello'')]
           = Assertion_failed"
    using t [of "[Add_comment_text_cstr (bytes_of ''hello'')]"
      ex_not_pending "Builder 0 None" "[]" 0 0 "[]"]
    by simp
  have 3: "lifetime ex_layout ex_buffer None
     [Add_comment 0 1 (bytes_of ''alice''), Add_comment 2 3 (bytes_of ''bob'')] = Assertion_failed"
    using t [of "[Add_comment 0 1 (bytes_of ''alice''), Add_comment 2 3 (bytes_of ''bob'')]"
      ex_not_pending "Builder 0 None" "[]" 0 0 "[]"]
    by simp
  have 4: "lifetime ex_layout ex_buffer None [Add_comment 0 1 (bytes_of ''alice'')]
           = Assertion_failed"
    using t [of "[Add_comment 0 1 (bytes_of ''alice'')]"
      ex_not_pending "Builder 0 None" "[]" 0 0 "[]"]
    by simp
  have 5: "add_comment_text_cstr ex_layout (Builder 0 None) (bytes_of ''hello'') ex_not_pending
           = Assertion_failed"
    using t [of "[]" ex_not_pending "Builder 0 None" "bytes_of ''hello''" 0 0 "[]"]
    by (simp add: ex_not_pending_def)
  have 6: "add_comment ex_layout (Builder 0 None) 0 1 (bytes_of ''alice'') ex_pending
           = Assertion_failed \<and>
           delete_ChangesetDiscussionBuilder (Builder 0 None) ex_pending = Assertion_failed"
    using t [of "[]" ex_pending "Builder 0 None" "[]" 0 1 "bytes_of ''alice''"]
    by (simp add: ex_pending_def)
  from 1 2 3 4 5 6 show ?thesis by blast
qed

text \<open>
  C10. Right after the construction of an \<open>OSMObjectBuilder\<close> (node, way, relation or
  area, by the size and bytes of \<open>T\<close>) or of a \<open>ChangesetBuilder\<close> the stored
  \<open>user_size\<close> is 1 and the user name is the empty string: the constructor has reserved
  a slot of 8 bytes after the fixed part of the new Item, at the end of what was written,
  and filled it with zero, then stored the length 1.
\<close>

theorem user_name_initially_empty:
  assumes "new_OSMObjectBuilder sizeof_T T_repr buffer parent = (this, b)"
    and "new_ChangesetBuilder L buffer parent = (this', b')"
    and "changeset_user_size_offset L + 2 \<le> sizeof_Changeset L"
    and "m_committed buffer \<le> m_written buffer"
  shows "OSMObject_user_size sizeof_T b (item_pos this b) = 1 \<and>
         OSMObject_user sizeof_T b (item_pos this b) = [] \<and>
         min_size_for_user = 8 \<and>
         bytes_at b (item_pos this b + sizeof_T + sizeof_string_size_type)
           (min_size_for_user - sizeof_string_size_type) = replicate 6 0 \<and>
         item_pos this b = m_written buffer \<and>
         m_written b = m_written buffer + sizeof_T + min_size_for_user \<and>
         Changeset_user_size L b' (item_pos this' b') = 1 \<and>
         Changeset_user L b' (item_pos this' b') = [] \<and>
         changeset_min_size_for_user = 8 \<and>
         bytes_at b' (item_pos this' b' + sizeof_Changeset L) changeset_min_size_for_user
           = replicate 8 0 \<and>
         item_pos this' b' = m_written buffer \<and>
         m_written b' = m_written buffer + sizeof_Changeset L + changeset_min_size_for_user"
  using new_OSMObjectBuilder_slot [OF assms(1)] new_ChangesetBuilder_slot [OF assms(2)] assms(3,4)
  by (simp add: OSMObject_user_def Changeset_user_def bytes_at_def sizeof_string_size_type_def)

theorem user_name_initially_empty_witness:
  "OSMObject_user_size 40 (snd ex_object_builder)
     (item_pos (fst ex_object_builder) (snd ex_object_builder)) = 1 \<and>
   OSMObject_user 40 (snd ex_object_builder)
     (item_pos (fst ex_object_builder) (snd ex_object_builder)) = [] \<and>
   bytes_at (snd ex_object_builder) 56 8 = [1, 0, 0, 0, 0, 0, 0, 0] \<and>
   m_written (snd ex_object_builder) = 64 \<and>
   Changeset_user_size ex_layout (snd ex_changeset_builder)
     (item_pos (fst ex_changeset_builder) (snd ex_changeset_builder)) = 1 \<and>
   Changeset_user ex_layout (snd ex_changeset_builder)
     (item_pos (fst ex_changeset_builder) (snd ex_changeset_builder)) = [] \<and>
   bytes_at (snd ex_changeset_builder) 76 12 = [1, 0, 204, 204, 0, 0, 0, 0, 0, 0, 0, 0] \<and>
   m_written (snd ex_changeset_builder) = 88"
proof -
  have l: "changeset_user_size_offset ex_layout + 2 \<le> sizeof_Changeset ex_layout"
    by (simp add: ex_layout_def)
  have m: "m_committed ex_buffer \<le> m_written ex_buffer"
    by (simp add: ex_buffer_def)
  have o: "new_OSMObjectBuilder 40 (\<lambda>k. 0xCC) ex_buffer None
           = (fst ex_object_builder, snd ex_object_builder)"
    by (simp add: ex_object_builder_def)
  have c: "new_ChangesetBuilder ex_layout ex_buffer None
           = (fst ex_changeset_builder, snd ex_changeset_builder)"
    by (simp add: ex_changeset_builder_def)
  note t = user_name_initially_empty [OF o c l m]
  have e1: "bytes_at (snd ex_object_builder) 56 8 = [1, 0, 0, 0, 0, 0, 0, 0]"
    by (simp add: builder_eval upt_conv_Cons)
  have e2: "m_written (snd ex_object_builder) = 64"
    by (simp add: builder_eval)
  have e3: "bytes_at (snd ex_changeset_builder) 76 12 = [1, 0, 204, 204, 0, 0, 0, 0, 0, 0, 0, 0]"
    by (simp add: builder_eval upt_conv_Cons)
  have e4: "m_written (snd ex_changeset_builder) = 88"
    by (simp add: builder_eval)
  from t e1 e2 e3 e4 show ?thesis by blast
qed

end
